theory Spec2Isabelle
  imports Complex_Main
begin

section \<open>Python values read by the exporter\<close>

text \<open>
  \<^verbatim>\<open>dump_telegram_history.py\<close> reads loosely typed remote objects through
  \<^verbatim>\<open>getattr(x, name, default)\<close> (which never raises) and through plain attribute
  access \<^verbatim>\<open>x.name\<close> (which raises \<^verbatim>\<open>AttributeError\<close> when the attribute is
  missing). The values it can meet are modelled by one datatype: \<open>PObj\<close> is an object
  with the listed data attributes (the first binding of a name wins), \<open>PDate iso\<close> is a
  \<^verbatim>\<open>datetime\<close> whose \<^verbatim>\<open>isoformat()\<close> is \<open>iso\<close>. Numbers are Python's unbounded
  integers; a character of a string stands for one code point. Floats, tuples,
  dictionaries and callable attributes are left out, and an object has the default
  truth value.
\<close>

datatype pyval =
    PNone
  | PBool bool
  | PInt int
  | PStr string
  | PList "pyval list"
  | PDate string
  | PObj "(string \<times> pyval) list"

text \<open>
  Exceptions. \<open>Raised r\<close> is an exception raised by a collaborator (the session layer,
  a \<^verbatim>\<open>__str__\<close> method), known by its \<^verbatim>\<open>repr\<close>. The message text of the two
  built-in errors is schematic: only the attribute or operation is recorded.
\<close>

datatype exn = AttributeError string | TypeError string | Raised string

fun py_repr :: "exn \<Rightarrow> string" where
  "py_repr (AttributeError a) = ''AttributeError('' @ a @ '')''"
| "py_repr (TypeError t) = ''TypeError('' @ t @ '')''"
| "py_repr (Raised r) = r"

text \<open>Truth value testing: \<^verbatim>\<open>if x\<close>, \<^verbatim>\<open>x or y\<close>, \<^verbatim>\<open>bool(x)\<close>.\<close>

fun truthy :: "pyval \<Rightarrow> bool" where
  "truthy PNone = False"
| "truthy (PBool b) = b"
| "truthy (PInt n) = (n \<noteq> 0)"
| "truthy (PStr s) = (s \<noteq> [])"
| "truthy (PList xs) = (xs \<noteq> [])"
| "truthy (PDate d) = True"
| "truthy (PObj attrs) = True"

definition py_or :: "pyval \<Rightarrow> pyval \<Rightarrow> pyval" where
  "py_or a b = (if truthy a then a else b)"

text \<open>
  Attribute lookup. Of the names the program reads as data, the built-in types own
  only the methods \<^verbatim>\<open>str.count\<close>, \<^verbatim>\<open>list.count\<close> and \<^verbatim>\<open>datetime.date\<close>; a bound
  method is an object with none of the attributes read here. (The one method the
  program calls on a value, \<^verbatim>\<open>isoformat\<close>, is modelled by \<open>isoformat\<close> below.)
\<close>

definition bound_method :: pyval where
  "bound_method = PObj []"

fun py_lookup :: "pyval \<Rightarrow> string \<Rightarrow> pyval option" where
  "py_lookup (PObj attrs) name = map_of attrs name"
| "py_lookup (PStr s) name = (if name = ''count'' then Some bound_method else None)"
| "py_lookup (PList xs) name = (if name = ''count'' then Some bound_method else None)"
| "py_lookup (PDate d) name = (if name = ''date'' then Some bound_method else None)"
| "py_lookup v name = None"

definition py_getattr :: "pyval \<Rightarrow> string \<Rightarrow> pyval \<Rightarrow> pyval" where
  "py_getattr v name dflt = (case py_lookup v name of Some x \<Rightarrow> x | None \<Rightarrow> dflt)"

definition py_attr :: "pyval \<Rightarrow> string \<Rightarrow> exn + pyval" where
  "py_attr v name = (case py_lookup v name of Some x \<Rightarrow> Inr x | None \<Rightarrow> Inl (AttributeError name))"

text \<open>Iteration (\<^verbatim>\<open>for x in v\<close>): lists and strings are iterable, nothing else is.\<close>

fun py_iter :: "pyval \<Rightarrow> exn + pyval list" where
  "py_iter (PList xs) = Inr xs"
| "py_iter (PStr s) = Inr (map (\<lambda>c. PStr [c]) s)"
| "py_iter v = Inl (TypeError ''not iterable'')"

text \<open>\<^verbatim>\<open>sum(...)\<close> starts from \<open>0\<close> and adds; only integers and booleans can be added to it.\<close>

fun py_sum :: "pyval list \<Rightarrow> exn + int" where
  "py_sum [] = Inr 0"
| "py_sum (PInt n # xs) = (case py_sum xs of Inl e \<Rightarrow> Inl e | Inr s \<Rightarrow> Inr (n + s))"
| "py_sum (PBool b # xs) = (case py_sum xs of Inl e \<Rightarrow> Inl e | Inr s \<Rightarrow> Inr (of_bool b + s))"
| "py_sum (v # xs) = Inl (TypeError ''unsupported operand'')"

text \<open>Decimal numerals, as \<^verbatim>\<open>str\<close> and \<^verbatim>\<open>format\<close> print integers.\<close>

definition digit_char :: "nat \<Rightarrow> char" where
  "digit_char d = ''0123456789'' ! (d mod 10)"

fun digits :: "nat \<Rightarrow> string" where
  "digits n = (if n < 10 then [digit_char n] else digits (n div 10) @ [digit_char (n mod 10)])"

declare digits.simps [simp del]

definition show_int :: "int \<Rightarrow> string" where
  "show_int i = (if i < 0 then CHR ''-'' # digits (nat (- i)) else digits (nat i))"

text \<open>
  \<^verbatim>\<open>str(v)\<close>, which is also what an f-string field \<^verbatim>\<open>{v}\<close> prints. The string form
  of a list, a datetime or an object is decided by code outside the repository (and an
  object's \<^verbatim>\<open>__str__\<close> may raise), so it is the parameter \<open>obj_str\<close>.
\<close>

type_synonym str_fn = "pyval \<Rightarrow> exn + string"

fun py_str :: "str_fn \<Rightarrow> pyval \<Rightarrow> exn + string" where
  "py_str obj_str PNone = Inr ''None''"
| "py_str obj_str (PBool b) = Inr (if b then ''True'' else ''False'')"
| "py_str obj_str (PInt n) = Inr (show_int n)"
| "py_str obj_str (PStr s) = Inr s"
| "py_str obj_str v = obj_str v"

section \<open>The Normalizer: \<^verbatim>\<open>to_serializable\<close>\<close>

record reaction_summary =
  total_count :: "int option"
  recent :: "pyval list"

text \<open>
  The dictionary \<^verbatim>\<open>to_serializable\<close> returns has a fixed set of keys; the two keys
  the orchestrator may add later (\<^verbatim>\<open>media_path\<close>, \<^verbatim>\<open>media_error\<close>) are optional
  fields, \<open>None\<close> meaning that the key is absent.
\<close>

record normalized =
  id_field :: pyval
  date :: pyval
  chat_id :: pyval
  sender_id :: pyval
  sender_username :: pyval
  sender_first_name :: pyval
  sender_last_name :: pyval
  message :: pyval
  reply_to_msg_id :: pyval
  views :: pyval
  forwards :: pyval
  reactions :: "reaction_summary option"
  media :: bool
  media_path :: "string option"
  media_error :: "string option"

text \<open>The body of the \<^verbatim>\<open>try\<close> in the loop over the recent reactions (lines 23 to 29).\<close>

definition reaction_token :: "str_fn \<Rightarrow> pyval \<Rightarrow> exn + pyval" where
  "reaction_token obj_str rr =
     (case py_attr rr ''reaction'' of
        Inl e \<Rightarrow> Inl e
      | Inr rx \<Rightarrow>
          let emo = py_getattr rx ''emoticon'' PNone in
          if truthy emo then Inr emo
          else
            let doc_id = py_getattr rx ''document_id'' PNone in
            if truthy doc_id
            then (case py_str obj_str doc_id of
                    Inl e \<Rightarrow> Inl e
                  | Inr s \<Rightarrow> Inr (PStr (''custom:'' @ s)))
            else (case py_str obj_str rx of
                    Inl e \<Rightarrow> Inl e
                  | Inr s \<Rightarrow> Inr (PStr s)))"

text \<open>The loop itself: \<open>acc\<close> is the list \<^verbatim>\<open>recent\<close>, appended to once per entry.\<close>

fun recent_loop :: "str_fn \<Rightarrow> pyval list \<Rightarrow> pyval list \<Rightarrow> pyval list" where
  "recent_loop obj_str [] acc = acc"
| "recent_loop obj_str (rr # rrs) acc =
     recent_loop obj_str rrs
       (acc @ [case reaction_token obj_str rr of Inl e \<Rightarrow> PNone | Inr v \<Rightarrow> v])"

text \<open>Lines 15 to 18: the total, \<open>None\<close> when anything in the \<^verbatim>\<open>try\<close> raises.\<close>

definition reactions_total :: "pyval \<Rightarrow> int option" where
  "reactions_total r =
     (case py_attr r ''results'' of
        Inl e \<Rightarrow> None
      | Inr res \<Rightarrow>
          (case py_iter (py_or res (PList [])) of
             Inl e \<Rightarrow> None
           | Inr xs \<Rightarrow>
               (case py_sum (map (\<lambda>x. py_getattr x ''count'' (PInt 0)) xs) of
                  Inl e \<Rightarrow> None
                | Inr n \<Rightarrow> Some n)))"

definition serialize_reactions :: "str_fn \<Rightarrow> pyval \<Rightarrow> exn + reaction_summary option" where
  "serialize_reactions obj_str r =
     (if \<not> truthy r then Inr None
      else
        let total = reactions_total r in
        case py_iter (py_or (py_getattr r ''recent_reactions'' PNone) (PList [])) of
          Inl e \<Rightarrow> Inl e
        | Inr rrs \<Rightarrow>
            Inr (Some \<lparr>total_count = total, recent = recent_loop obj_str rrs []\<rparr>))"

text \<open>
  \<^verbatim>\<open>d.isoformat()\<close>: a datetime answers; on anything else the attribute is missing,
  or is a data attribute that cannot be called.
\<close>

fun isoformat :: "pyval \<Rightarrow> exn + pyval" where
  "isoformat (PDate txt) = Inr (PStr txt)"
| "isoformat (PObj attrs) =
     (case map_of attrs ''isoformat'' of
        None \<Rightarrow> Inl (AttributeError ''isoformat'')
      | Some f \<Rightarrow> Inl (TypeError ''not callable''))"
| "isoformat v = Inl (AttributeError ''isoformat'')"

text \<open>Line 37: \<^verbatim>\<open>msg.date.isoformat() if getattr(msg, "date", None) else None\<close>.\<close>

definition date_field :: "pyval \<Rightarrow> exn + pyval" where
  "date_field msg =
     (if truthy (py_getattr msg ''date'' PNone)
      then (case py_attr msg ''date'' of Inl e \<Rightarrow> Inl e | Inr d \<Rightarrow> isoformat d)
      else Inr PNone)"

text \<open>
  The dictionary display of lines 35 to 49, from the record, its sender \<open>s\<close> and the
  three values whose evaluation can raise.
\<close>

definition record_of ::
  "pyval \<Rightarrow> pyval \<Rightarrow> pyval \<Rightarrow> pyval \<Rightarrow> reaction_summary option \<Rightarrow> normalized" where
  "record_of msg s i dt rs =
     \<lparr>id_field = i,
      date = dt,
      chat_id = py_getattr msg ''chat_id'' PNone,
      sender_id = py_getattr msg ''sender_id'' PNone,
      sender_username = (if truthy s then py_getattr s ''username'' PNone else PNone),
      sender_first_name = (if truthy s then py_getattr s ''first_name'' PNone else PNone),
      sender_last_name = (if truthy s then py_getattr s ''last_name'' PNone else PNone),
      message = py_getattr msg ''message'' PNone,
      reply_to_msg_id = py_getattr msg ''reply_to_msg_id'' PNone,
      views = py_getattr msg ''views'' PNone,
      forwards = py_getattr msg ''forwards'' PNone,
      reactions = rs,
      media = truthy (py_getattr msg ''media'' PNone),
      media_path = None,
      media_error = None\<rparr>"

text \<open>
  \<^verbatim>\<open>to_serializable\<close>: \<^verbatim>\<open>s = msg.sender\<close> first, then the values of the display
  in order; only \<^verbatim>\<open>msg.id\<close>, the date and the reactions can raise.
\<close>

definition to_serializable :: "str_fn \<Rightarrow> pyval \<Rightarrow> exn + normalized" where
  "to_serializable obj_str msg =
     (case py_attr msg ''sender'' of
        Inl e \<Rightarrow> Inl e
      | Inr s \<Rightarrow>
     (case py_attr msg ''id'' of
        Inl e \<Rightarrow> Inl e
      | Inr i \<Rightarrow>
     (case date_field msg of
        Inl e \<Rightarrow> Inl e
      | Inr dt \<Rightarrow>
     (case serialize_reactions obj_str (py_getattr msg ''reactions'' PNone) of
        Inl e \<Rightarrow> Inl e
      | Inr rs \<Rightarrow> Inr (record_of msg s i dt rs)))))"

section \<open>Configuration, records of the source, output entries\<close>

text \<open>
  \<^verbatim>\<open>Path(args.json)\<close>, known by the components the program reads: its directory
  (\<^verbatim>\<open>parent\<close>), the file name without its last suffix (\<^verbatim>\<open>stem\<close>) and that suffix.
  A file is identified by its directory and its name.
\<close>

record out_path =
  parent :: string
  stem :: string
  suffix :: string

type_synonym file_id = "string \<times> string"

definition path_file :: "out_path \<Rightarrow> file_id" where
  "path_file p = (parent p, stem p @ suffix p)"

text \<open>
  The parsed command line, restricted to the options the export loop reads.
  Durations are Python floats; they are modelled as reals (doubling a float is exact
  short of overflow).
\<close>

record args =
  json :: out_path
  media_dir :: "string option"
  limit :: "int option"
  batch_size :: "int option"
  sleep_per_msg :: real
  sleep_every :: int
  sleep_seconds :: real
  max_retries :: int
  retry_backoff :: real

text \<open>
  What one call of \<^verbatim>\<open>msg.download_media(media_dir)\<close> does: it returns a value,
  raises \<^verbatim>\<open>FloodWaitError\<close> with its \<^verbatim>\<open>seconds\<close>, or raises another exception.
  A record of the source is the remote object together with the outcomes of the
  successive download calls made on it (call \<open>0\<close> is the first).
\<close>

datatype dl_outcome = Downloaded pyval | FloodWaitError int | Raises exn

record raw_record =
  obj :: pyval
  download_media :: "nat \<Rightarrow> dl_outcome"

text \<open>
  An output entry is a normalized record or the placeholder
  \<^verbatim>\<open>{"id": ..., "error": ...}\<close>. The JSON text of an entry is represented by the entry:
  \<^verbatim>\<open>json.dumps\<close> is injective on what it accepts, and it raises \<^verbatim>\<open>TypeError\<close> on
  a value that is not \<^verbatim>\<open>None\<close>, a boolean, a number, a string or a list of such.
\<close>

datatype entry = Rec normalized | Placeholder pyval string

fun json_ok :: "pyval \<Rightarrow> bool" where
  "json_ok PNone = True"
| "json_ok (PBool b) = True"
| "json_ok (PInt n) = True"
| "json_ok (PStr s) = True"
| "json_ok (PList xs) = list_all json_ok xs"
| "json_ok (PDate d) = False"
| "json_ok (PObj attrs) = False"

definition json_ok_rec :: "normalized \<Rightarrow> bool" where
  "json_ok_rec r =
     (json_ok (id_field r) \<and> json_ok (date r) \<and> json_ok (chat_id r) \<and> json_ok (sender_id r) \<and>
      json_ok (sender_username r) \<and> json_ok (sender_first_name r) \<and>
      json_ok (sender_last_name r) \<and> json_ok (message r) \<and> json_ok (reply_to_msg_id r) \<and>
      json_ok (views r) \<and> json_ok (forwards r) \<and>
      (case reactions r of None \<Rightarrow> True | Some rs \<Rightarrow> list_all json_ok (recent rs)))"

fun json_ok_entry :: "entry \<Rightarrow> bool" where
  "json_ok_entry (Rec r) = json_ok_rec r"
| "json_ok_entry (Placeholder i err) = json_ok i"

definition json_dumps :: "entry \<Rightarrow> exn + entry" where
  "json_dumps e = (if json_ok_entry e then Inr e else Inl (TypeError ''not JSON serializable''))"

text \<open>
  The observable effects, in the order they happen: those of the fetcher (a download
  attempt, a sleep) and those of the export loop (the fetcher's, a pacing sleep, the
  output file opened, a line appended, a batch file written). A streaming file holds
  lines, a batch file one array.
\<close>

datatype dl_event = Attempted | Slept real

datatype event =
    Fetcher dl_event
  | Paused real
  | Opened file_id
  | Appended file_id entry
  | Dumped file_id "entry list"

datatype content = JsonLines "entry list" | JsonArray "entry list"

type_synonym fs = "file_id \<rightharpoonup> content"

section \<open>The Side-Effect Fetcher: \<^verbatim>\<open>download_with_retry\<close>\<close>

text \<open>
  The state of the retry loop: its variables \<^verbatim>\<open>attempt\<close> and \<^verbatim>\<open>backoff\<close>, the
  number of download calls made so far and the trace of what the loop has done.
\<close>

record retry_state =
  attempt :: int
  backoff :: real
  calls :: nat
  evs :: "dl_event list"

datatype attempt_result = Ok string | Flood int | Err exn

text \<open>
  Lines 146 and 147, the body of the \<^verbatim>\<open>try\<close>: the download, then \<^verbatim>\<open>str(fn)\<close>,
  whose exception the same handlers catch.
\<close>

definition attempt_download :: "str_fn \<Rightarrow> (nat \<Rightarrow> dl_outcome) \<Rightarrow> nat \<Rightarrow> attempt_result" where
  "attempt_download obj_str dl k =
     (case dl k of
        Downloaded v \<Rightarrow> (case py_str obj_str v of Inr p \<Rightarrow> Ok p | Inl e \<Rightarrow> Err e)
      | FloodWaitError secs \<Rightarrow> Flood secs
      | Raises e \<Rightarrow> Err e)"

text \<open>
  The \<^verbatim>\<open>while True\<close> loop. It need not return (a download throttled for ever), so
  it is a partial function: \<open>None\<close> is a run that never returns.
\<close>

partial_function (option) retry_loop ::
  "str_fn \<Rightarrow> (nat \<Rightarrow> dl_outcome) \<Rightarrow> int \<Rightarrow> retry_state \<Rightarrow>
     (retry_state \<times> string option \<times> string option) option" where
  "retry_loop obj_str dl retries s =
     (case attempt_download obj_str dl (calls s) of
        Ok p \<Rightarrow>
          Some (s\<lparr>calls := calls s + 1, evs := evs s @ [Attempted]\<rparr>, Some p, None)
      | Flood secs \<Rightarrow>
          retry_loop obj_str dl retries
            (s\<lparr>calls := calls s + 1, evs := evs s @ [Attempted, Slept (real_of_int (secs + 1))]\<rparr>)
      | Err e \<Rightarrow>
          if attempt s + 1 > max 0 retries
          then Some (s\<lparr>attempt := attempt s + 1, calls := calls s + 1,
                       evs := evs s @ [Attempted]\<rparr>, None, Some (py_repr e))
          else retry_loop obj_str dl retries
                 (s\<lparr>attempt := attempt s + 1,
                    backoff := (if backoff s > 0 then backoff s * 2 else 0),
                    calls := calls s + 1,
                    evs := evs s @ [Attempted, Slept (backoff s)]\<rparr>))"

text \<open>\<^verbatim>\<open>media_dir = Path(args.media_dir) if args.media_dir else None\<close> (line 97).\<close>

definition media_dir_path :: "args \<Rightarrow> string option" where
  "media_dir_path a =
     (case media_dir a of None \<Rightarrow> None | Some d \<Rightarrow> if d = [] then None else Some d)"

definition retry_init :: "args \<Rightarrow> retry_state" where
  "retry_init a = \<lparr>attempt = 0, backoff = max 0 (retry_backoff a), calls = 0, evs = []\<rparr>"

definition download_with_retry ::
  "args \<Rightarrow> str_fn \<Rightarrow> raw_record \<Rightarrow> (retry_state \<times> string option \<times> string option) option" where
  "download_with_retry a obj_str msg =
     (case media_dir_path a of
        None \<Rightarrow> Some (retry_init a, None, None)
      | Some d \<Rightarrow> retry_loop obj_str (download_media msg) (max_retries a) (retry_init a))"

section \<open>The Pacing Controller and the Progress Tracker\<close>

text \<open>
  \<^verbatim>\<open>maybe_rate_sleep\<close> reads the counter \<^verbatim>\<open>written\<close> of the enclosing function;
  the result is the list of the sleeps it makes, in order.
\<close>

definition maybe_rate_sleep :: "args \<Rightarrow> int \<Rightarrow> real list" where
  "maybe_rate_sleep a written =
     (if sleep_per_msg a \<noteq> 0 \<and> sleep_per_msg a > 0 then [sleep_per_msg a] else []) @
     (if sleep_every a \<noteq> 0 \<and> sleep_every a > 0 \<and> sleep_seconds a \<noteq> 0 \<and> sleep_seconds a > 0
      then (if written > 0 \<and> written mod sleep_every a = 0 then [sleep_seconds a] else [])
      else [])"

text \<open>
  Lines 101 to 110: \<open>known\<close> is the total the source reports, \<open>None\<close> when asking for
  it raised. The result is the \<^verbatim>\<open>total\<close> handed to the progress bar.
\<close>

definition progress_total :: "int option \<Rightarrow> int option \<Rightarrow> int option" where
  "progress_total known cap =
     (case cap of
        None \<Rightarrow> known
      | Some l \<Rightarrow> (case known of Some t \<Rightarrow> Some (min t l) | None \<Rightarrow> Some l))"

section \<open>The Sink and the Export Orchestrator: \<^verbatim>\<open>main\<close>\<close>

text \<open>
  The local variables of \<^verbatim>\<open>main\<close> that the loops update, the files and the trace
  of effects.
\<close>

record run_state =
  written :: nat
  batch :: "entry list"
  batch_idx :: nat
  files :: fs
  events :: "event list"
  pbar_total :: "int option"
  pbar_n :: nat

text \<open>\<^verbatim>\<open>f"{idx:05d}"\<close>: the decimal numeral, filled with zeros on the left up to five characters.\<close>

definition fmt_05d :: "nat \<Rightarrow> string" where
  "fmt_05d idx = replicate (5 - length (digits idx)) CHR ''0'' @ digits idx"

definition batch_file :: "out_path \<Rightarrow> nat \<Rightarrow> file_id" where
  "batch_file p idx = (parent p, stem p @ ''_part'' @ fmt_05d idx @ ''.json'')"

text \<open>
  \<^verbatim>\<open>write_batch\<close> opens the file for writing and dumps the whole list as one array;
  \<^verbatim>\<open>json.dump\<close> raises on a list holding an entry it cannot serialize.
\<close>

definition write_batch :: "out_path \<Rightarrow> entry list \<Rightarrow> nat \<Rightarrow> run_state \<Rightarrow> exn + run_state" where
  "write_batch p records idx st =
     (if list_all json_ok_entry records
      then Inr (st\<lparr>files := (files st)(batch_file p idx \<mapsto> JsonArray records),
                   events := events st @ [Dumped (batch_file p idx) records]\<rparr>)
      else Inl (TypeError ''not JSON serializable''))"

text \<open>
  \<^verbatim>\<open>if fn: rec["media_path"] = fn\<close> and \<^verbatim>\<open>if err: rec["media_error"] = err\<close>:
  a key is added for a non-empty string only.
\<close>

definition attach :: "normalized \<Rightarrow> string option \<Rightarrow> string option \<Rightarrow> normalized" where
  "attach r fn err =
     (let r1 = (case fn of Some p \<Rightarrow> if p \<noteq> [] then r\<lparr>media_path := Some p\<rparr> else r | None \<Rightarrow> r)
      in (case err of Some x \<Rightarrow> if x \<noteq> [] then r1\<lparr>media_error := Some x\<rparr> else r1 | None \<Rightarrow> r1))"

text \<open>
  Lines 163 to 169, which lines 179 to 185 repeat: normalize, then download when a media
  directory is configured and the record has media. The result is the record or the
  exception that left the block, with the effects of the download; \<open>None\<close> when the
  download never returns.
\<close>

definition build_record ::
  "args \<Rightarrow> str_fn \<Rightarrow> raw_record \<Rightarrow> ((exn + normalized) \<times> dl_event list) option" where
  "build_record a obj_str msg =
     (case to_serializable obj_str (obj msg) of
        Inl e \<Rightarrow> Some (Inl e, [])
      | Inr r \<Rightarrow>
          if media_dir_path a \<noteq> None \<and> truthy (py_getattr (obj msg) ''media'' PNone)
          then (case download_with_retry a obj_str msg of
                  None \<Rightarrow> None
                | Some (rs, fn, err) \<Rightarrow> Some (Inr (attach r fn err), evs rs))
          else Some (Inr r, []))"

definition placeholder :: "raw_record \<Rightarrow> exn \<Rightarrow> entry" where
  "placeholder msg e = Placeholder (py_getattr (obj msg) ''id'' PNone) (py_repr e)"

definition append_line :: "file_id \<Rightarrow> entry \<Rightarrow> run_state \<Rightarrow> run_state" where
  "append_line out e st =
     st\<lparr>files := (files st)(out \<mapsto>
            (case files st out of Some (JsonLines ls) \<Rightarrow> JsonLines (ls @ [e]) | _ \<Rightarrow> JsonLines [e])),
        events := events st @ [Appended out e]\<rparr>"

text \<open>Lines 173 to 175 and 194 to 195 (the counter is incremented before the pacing reads it).\<close>

definition pace :: "args \<Rightarrow> run_state \<Rightarrow> run_state" where
  "pace a st =
     st\<lparr>pbar_n := pbar_n st + 1,
        events := events st @ map Paused (maybe_rate_sleep a (int (written st)))\<rparr>"

text \<open>
  One turn of the streaming loop (lines 162 to 175). \<^verbatim>\<open>json.dumps(rec)\<close> is inside
  the \<^verbatim>\<open>try\<close>; the handler's own \<^verbatim>\<open>json.dumps\<close> is not, and an exception there
  leaves \<^verbatim>\<open>main\<close>: \<open>Some (Inl e)\<close>.
\<close>

definition stream_line :: "raw_record \<Rightarrow> exn + normalized \<Rightarrow> exn + entry" where
  "stream_line msg r =
     (case (case r of Inl e \<Rightarrow> Inl e | Inr nr \<Rightarrow> json_dumps (Rec nr)) of
        Inl e \<Rightarrow> json_dumps (placeholder msg e)
      | Inr l \<Rightarrow> Inr l)"

definition stream_body ::
  "args \<Rightarrow> str_fn \<Rightarrow> run_state \<Rightarrow> raw_record \<Rightarrow> (exn + run_state) option" where
  "stream_body a obj_str st msg =
     (case build_record a obj_str msg of
        None \<Rightarrow> None
      | Some (r, dl_evs) \<Rightarrow>
          let st1 = st\<lparr>events := events st @ map Fetcher dl_evs\<rparr>
          in (case stream_line msg r of
                Inl e \<Rightarrow> Some (Inl e)
              | Inr l \<Rightarrow>
                  Some (Inr (pace a ((append_line (path_file (json a)) l st1)
                                       \<lparr>written := written st1 + 1\<rparr>)))))"

fun stream_loop ::
  "args \<Rightarrow> str_fn \<Rightarrow> run_state \<Rightarrow> raw_record list \<Rightarrow> (exn + run_state) option" where
  "stream_loop a obj_str st [] = Some (Inr st)"
| "stream_loop a obj_str st (msg # msgs) =
     (case stream_body a obj_str st msg of
        None \<Rightarrow> None
      | Some (Inl e) \<Rightarrow> Some (Inl e)
      | Some (Inr st') \<Rightarrow> stream_loop a obj_str st' msgs)"

text \<open>
  One turn of the batch loop (lines 178 to 195), \<open>b\<close> being \<^verbatim>\<open>args.batch_size\<close>.
  Nothing is serialized inside the \<^verbatim>\<open>try\<close>; \<^verbatim>\<open>write_batch\<close> is called outside it.
\<close>

definition batch_entry :: "raw_record \<Rightarrow> exn + normalized \<Rightarrow> entry" where
  "batch_entry msg r = (case r of Inl x \<Rightarrow> placeholder msg x | Inr nr \<Rightarrow> Rec nr)"

definition batch_body ::
  "args \<Rightarrow> str_fn \<Rightarrow> int \<Rightarrow> run_state \<Rightarrow> raw_record \<Rightarrow> (exn + run_state) option" where
  "batch_body a obj_str b st msg =
     (case build_record a obj_str msg of
        None \<Rightarrow> None
      | Some (r, dl_evs) \<Rightarrow>
          let st1 = st\<lparr>events := events st @ map Fetcher dl_evs,
                       batch := batch st @ [batch_entry msg r],
                       written := written st + 1\<rparr>
          in if int (length (batch st1)) \<ge> b
             then (case write_batch (json a) (batch st1) (batch_idx st1) st1 of
                     Inl x \<Rightarrow> Some (Inl x)
                   | Inr st2 \<Rightarrow>
                       Some (Inr (pace a (st2\<lparr>batch_idx := batch_idx st2 + 1, batch := []\<rparr>))))
             else Some (Inr (pace a st1)))"

fun batch_loop ::
  "args \<Rightarrow> str_fn \<Rightarrow> int \<Rightarrow> run_state \<Rightarrow> raw_record list \<Rightarrow> (exn + run_state) option" where
  "batch_loop a obj_str b st [] = Some (Inr st)"
| "batch_loop a obj_str b st (msg # msgs) =
     (case batch_body a obj_str b st msg of
        None \<Rightarrow> None
      | Some (Inl e) \<Rightarrow> Some (Inl e)
      | Some (Inr st') \<Rightarrow> batch_loop a obj_str b st' msgs)"

text \<open>\<^verbatim>\<open>batching = isinstance(args.batch_size, int) and args.batch_size > 0\<close> (line 120).\<close>

definition batching :: "args \<Rightarrow> bool" where
  "batching a = (case batch_size a of None \<Rightarrow> False | Some b \<Rightarrow> b > 0)"

definition init_state :: "args \<Rightarrow> int option \<Rightarrow> fs \<Rightarrow> run_state" where
  "init_state a known fs0 =
     \<lparr>written = 0, batch = [], batch_idx = 1, files = fs0, events = [],
      pbar_total = progress_total known (limit a), pbar_n = 0\<rparr>"

text \<open>\<^verbatim>\<open>out_path.open("w")\<close> creates the file, or empties it when it exists.\<close>

definition open_w :: "file_id \<Rightarrow> run_state \<Rightarrow> run_state" where
  "open_w out st = st\<lparr>files := (files st)(out \<mapsto> JsonLines []), events := events st @ [Opened out]\<rparr>"

text \<open>
  The export itself (lines 101 to 197), from the total the source reports, the files
  present at the start and the records of the source in traversal order. The result is
  \<open>None\<close> when the run never returns, \<open>Some (Inl e)\<close> when the exception \<open>e\<close> leaves
  \<^verbatim>\<open>main\<close> (what the aborted run leaves on disk is not modelled), and
  \<open>Some (Inr st)\<close> when the loop and the final flush complete. Creating the
  directories, closing the progress bar and printing the summary are left out.
\<close>

definition main ::
  "args \<Rightarrow> str_fn \<Rightarrow> int option \<Rightarrow> fs \<Rightarrow> raw_record list \<Rightarrow> (exn + run_state) option" where
  "main a obj_str known fs0 msgs =
     (case (if batching a then batch_size a else None) of
        None \<Rightarrow>
          stream_loop a obj_str (open_w (path_file (json a)) (init_state a known fs0)) msgs
      | Some b \<Rightarrow>
          (case batch_loop a obj_str b (init_state a known fs0) msgs of
             None \<Rightarrow> None
           | Some (Inl e) \<Rightarrow> Some (Inl e)
           | Some (Inr st) \<Rightarrow>
               if batch st \<noteq> []
               then (case write_batch (json a) (batch st) (batch_idx st) st of
                       Inl e \<Rightarrow> Some (Inl e)
                     | Inr st' \<Rightarrow> Some (Inr st'))
               else Some (Inr st)))"

section \<open>Notions used to state the properties\<close>

text \<open>
  The reaction summary as the specification words it. A count is available when it is
  an integer (a result without a \<^verbatim>\<open>count\<close> counts for \<open>0\<close>); the total is the sum
  when the container has a \<^verbatim>\<open>results\<close> attribute that is empty or a sequence of
  results with available counts, and null otherwise.
\<close>

definition count_of :: "pyval \<Rightarrow> int option" where
  "count_of x =
     (case py_getattr x ''count'' (PInt 0) of
        PInt n \<Rightarrow> Some n
      | PBool b \<Rightarrow> Some (of_bool b)
      | _ \<Rightarrow> None)"

definition spec_total :: "pyval \<Rightarrow> int option" where
  "spec_total r =
     (case py_lookup r ''results'' of
        None \<Rightarrow> None
      | Some res \<Rightarrow>
          if \<not> truthy res then Some 0
          else (case py_iter res of
                  Inl e \<Rightarrow> None
                | Inr xs \<Rightarrow>
                    if list_all (\<lambda>x. count_of x \<noteq> None) xs
                    then Some (sum_list (map (\<lambda>x. case count_of x of Some n \<Rightarrow> n | None \<Rightarrow> 0) xs))
                    else None))"

text \<open>
  One entry of the recent list as the specification words it: the emoticon if present,
  else \<^verbatim>\<open>custom:<document id>\<close> if a document id is present, else the string form;
  null when the entry cannot be decoded. Present means truthy.
\<close>

definition spec_recent_entry :: "str_fn \<Rightarrow> pyval \<Rightarrow> pyval" where
  "spec_recent_entry obj_str rr =
     (case py_lookup rr ''reaction'' of
        None \<Rightarrow> PNone
      | Some rx \<Rightarrow>
          if truthy (py_getattr rx ''emoticon'' PNone) then py_getattr rx ''emoticon'' PNone
          else if truthy (py_getattr rx ''document_id'' PNone)
          then (case py_str obj_str (py_getattr rx ''document_id'' PNone) of
                  Inr s \<Rightarrow> PStr (''custom:'' @ s)
                | Inl e \<Rightarrow> PNone)
          else (case py_str obj_str rx of Inr s \<Rightarrow> PStr s | Inl e \<Rightarrow> PNone))"

text \<open>
  The records on which the Normalizer does not raise: \<^verbatim>\<open>sender\<close> and \<^verbatim>\<open>id\<close> are
  attributes of the record (whatever their values), the date is falsy or a datetime,
  and the recent reactions of a reaction container are falsy or can be iterated.
\<close>

definition date_ok :: "pyval \<Rightarrow> bool" where
  "date_ok msg = (case py_getattr msg ''date'' PNone of PDate t \<Rightarrow> True | d \<Rightarrow> \<not> truthy d)"

definition recent_ok :: "pyval \<Rightarrow> bool" where
  "recent_ok r =
     (case py_getattr r ''recent_reactions'' PNone of
        PList xs \<Rightarrow> True
      | PStr s \<Rightarrow> True
      | v \<Rightarrow> \<not> truthy v)"

definition well_shaped :: "pyval \<Rightarrow> bool" where
  "well_shaped msg =
     (py_lookup msg ''sender'' \<noteq> None \<and> py_lookup msg ''id'' \<noteq> None \<and> date_ok msg \<and>
      (truthy (py_getattr msg ''reactions'' PNone) \<longrightarrow>
         recent_ok (py_getattr msg ''reactions'' PNone)))"

text \<open>A download call that is answered by the throttling signal.\<close>

fun throttled :: "dl_outcome \<Rightarrow> bool" where
  "throttled (FloodWaitError secs) = True"
| "throttled r = False"

fun is_flood :: "attempt_result \<Rightarrow> bool" where
  "is_flood (Flood secs) = True"
| "is_flood r = False"

text \<open>Inputs for the worked instances.\<close>

definition demo_str :: str_fn where
  "demo_str v = Inr ''<object>''"

definition demo_reactions :: pyval where
  "demo_reactions =
     PObj [(''results'', PList [PObj [(''count'', PInt 2)], PObj [(''count'', PInt 3)]]),
           (''recent_reactions'',
              PList [PObj [(''reaction'', PObj [(''emoticon'', PStr ''+'')])],
                     PObj [(''reaction'', PObj [(''document_id'', PInt 7)])],
                     PObj []])]"

definition demo_obj :: pyval where
  "demo_obj =
     PObj [(''id'', PInt 1), (''sender'', PNone), (''message'', PStr ''hello''),
           (''reactions'', demo_reactions), (''media'', PBool True)]"

definition demo_args :: args where
  "demo_args =
     \<lparr>json = \<lparr>parent = ''out'', stem = ''messages'', suffix = ''.jsonl''\<rparr>,
      media_dir = Some ''media'', limit = None, batch_size = None,
      sleep_per_msg = 0, sleep_every = 0, sleep_seconds = 0,
      max_retries = 3, retry_backoff = 3 / 2\<rparr>"

definition failing_record :: raw_record where
  "failing_record = \<lparr>obj = demo_obj, download_media = (\<lambda>k. Raises (Raised ''ConnectionError()''))\<rparr>"

definition throttled_record :: raw_record where
  "throttled_record =
     \<lparr>obj = demo_obj,
      download_media = (\<lambda>k. if k < 3 then FloodWaitError 2 else Downloaded (PStr ''media/1.jpg''))\<rparr>"


text \<open>
  The entry that stands for a raw record in the output: its normalized record, with
  or without the media keys, or the placeholder carrying its \<^verbatim>\<open>id\<close>.
\<close>

fun entry_for :: "str_fn \<Rightarrow> raw_record \<Rightarrow> entry \<Rightarrow> bool" where
  "entry_for f m (Rec nr) =
     (to_serializable f (obj m) = Inr (nr\<lparr>media_path := None, media_error := None\<rparr>))"
| "entry_for f m (Placeholder i err) = (i = py_getattr (obj m) ''id'' PNone)"

text \<open>The batch files written and the pacing sleeps made, read off the trace.\<close>

fun dumped :: "event list \<Rightarrow> (file_id \<times> entry list) list" where
  "dumped [] = []"
| "dumped (Dumped fl es # rest) = (fl, es) # dumped rest"
| "dumped (ev # rest) = dumped rest"

fun pauses :: "event list \<Rightarrow> real list" where
  "pauses [] = []"
| "pauses (Paused d # rest) = d # pauses rest"
| "pauses (ev # rest) = pauses rest"

text \<open>
  Cutting a list into batches of \<open>b\<close>: the full ones, what is left over, and all of
  them; the files they go to, numbered from \<open>idx\<close>; and the effect of writing them.
\<close>

fun full_chunks :: "nat \<Rightarrow> 'a list \<Rightarrow> 'a list list" where
  "full_chunks b xs =
     (if b = 0 \<or> length xs < b then [] else take b xs # full_chunks b (drop b xs))"

fun rest_chunk :: "nat \<Rightarrow> 'a list \<Rightarrow> 'a list" where
  "rest_chunk b xs = (if b = 0 \<or> length xs < b then xs else rest_chunk b (drop b xs))"

declare full_chunks.simps [simp del] rest_chunk.simps [simp del]

definition chunks :: "nat \<Rightarrow> 'a list \<Rightarrow> 'a list list" where
  "chunks b xs = full_chunks b xs @ (if rest_chunk b xs = [] then [] else [rest_chunk b xs])"

fun batch_files :: "out_path \<Rightarrow> nat \<Rightarrow> entry list list \<Rightarrow> (file_id \<times> entry list) list" where
  "batch_files p idx [] = []"
| "batch_files p idx (c # cs) = (batch_file p idx, c) # batch_files p (Suc idx) cs"

fun write_all :: "(file_id \<times> entry list) list \<Rightarrow> fs \<Rightarrow> fs" where
  "write_all [] fs = fs"
| "write_all ((fl, c) # ds) fs = write_all ds (fs(fl \<mapsto> JsonArray c))"

text \<open>The number a decimal numeral denotes.\<close>

definition digit_val :: "char \<Rightarrow> nat" where
  "digit_val c = of_char c - 48"

definition dec_val :: "string \<Rightarrow> nat" where
  "dec_val s = foldl (\<lambda>acc c. 10 * acc + digit_val c) 0 s"

text \<open>
  The Pacing Controller as the specification words it, from the number of records
  processed prior to the current one.
\<close>

definition pacing_as_stated :: "args \<Rightarrow> int \<Rightarrow> real list" where
  "pacing_as_stated a prior =
     (if 0 < sleep_per_msg a then [sleep_per_msg a] else []) @
     (if 0 < sleep_every a \<and> 0 < sleep_seconds a \<and> prior \<noteq> 0 \<and> prior mod sleep_every a = 0
      then [sleep_seconds a] else [])"

text \<open>
  The pacing sleeps of the turns of the loop that bring the counter \<^verbatim>\<open>written\<close> from
  \<open>i\<close> to \<open>j\<close>.
\<close>

definition paced :: "args \<Rightarrow> nat \<Rightarrow> nat \<Rightarrow> real list" where
  "paced a i j = concat (map (\<lambda>k. maybe_rate_sleep a (int k)) [Suc i..<Suc j])"

text \<open>More inputs for the worked instances.\<close>

definition plain_record :: raw_record where
  "plain_record =
     \<lparr>obj = PObj [(''id'', PInt 1), (''sender'', PNone), (''message'', PStr ''hi'')],
      download_media = (\<lambda>k. Downloaded (PStr ''unused''))\<rparr>"

definition odd_record :: raw_record where
  "odd_record =
     \<lparr>obj = PObj [(''id'', PInt 2), (''sender'', PNone), (''message'', PObj [])],
      download_media = (\<lambda>k. Downloaded (PStr ''unused''))\<rparr>"

definition opaque_id_record :: raw_record where
  "opaque_id_record =
     \<lparr>obj = PObj [(''id'', PObj []), (''sender'', PNone)],
      download_media = (\<lambda>k. Downloaded (PStr ''unused''))\<rparr>"

definition stuck_record :: raw_record where
  "stuck_record = \<lparr>obj = demo_obj, download_media = (\<lambda>k. FloodWaitError 1)\<rparr>"

definition batch_args :: "int \<Rightarrow> args" where
  "batch_args b = demo_args\<lparr>batch_size := Some b\<rparr>"

definition pace_args :: "real \<Rightarrow> int \<Rightarrow> real \<Rightarrow> args" where
  "pace_args per_msg every secs =
     demo_args\<lparr>sleep_per_msg := per_msg, sleep_every := every, sleep_seconds := secs\<rparr>"

definition empty_path_record :: raw_record where
  "empty_path_record = \<lparr>obj = demo_obj, download_media = (\<lambda>k. Downloaded (PStr ''''))\<rparr>"


section \<open>The Normalizer\<close>

lemma py_sum_counts:
  "py_sum (map (\<lambda>x. py_getattr x ''count'' (PInt 0)) xs) =
     (if list_all (\<lambda>x. count_of x \<noteq> None) xs
      then Inr (sum_list (map (\<lambda>x. case count_of x of Some n \<Rightarrow> n | None \<Rightarrow> 0) xs))
      else Inl (TypeError ''unsupported operand''))"
proof (induction xs)
  case Nil
  show ?case by simp
next
  case (Cons x xs)
  show ?case
    using Cons.IH
    by (cases "py_getattr x ''count'' (PInt 0)") (simp_all add: count_of_def)
qed

lemma reactions_total_spec: "reactions_total r = spec_total r"
  unfolding reactions_total_def spec_total_def py_attr_def py_or_def
  by (auto simp: py_sum_counts split: option.splits sum.splits)

lemma token_entry:
  "(case reaction_token f rr of Inl e \<Rightarrow> PNone | Inr v \<Rightarrow> v) = spec_recent_entry f rr"
  unfolding reaction_token_def spec_recent_entry_def py_attr_def Let_def
  by (simp split: option.splits sum.splits)

lemma recent_loop_map: "recent_loop f rrs acc = acc @ map (spec_recent_entry f) rrs"
  by (induction rrs arbitrary: acc) (simp_all add: token_entry)

lemma to_serializable_Inr:
  "(to_serializable f msg = Inr n) =
     (\<exists>s i dt rs.
        py_lookup msg ''sender'' = Some s \<and> py_lookup msg ''id'' = Some i \<and>
        date_field msg = Inr dt \<and>
        serialize_reactions f (py_getattr msg ''reactions'' PNone) = Inr rs \<and>
        n = record_of msg s i dt rs)"
  unfolding to_serializable_def py_attr_def
  by (cases "py_lookup msg ''sender''"; cases "py_lookup msg ''id''"; cases "date_field msg";
      cases "serialize_reactions f (py_getattr msg ''reactions'' PNone)")
     (simp_all, blast)

lemma to_serializable_returns:
  "(\<exists>n. to_serializable f msg = Inr n) =
     (py_lookup msg ''sender'' \<noteq> None \<and> py_lookup msg ''id'' \<noteq> None \<and>
      (\<exists>dt. date_field msg = Inr dt) \<and>
      (\<exists>rs. serialize_reactions f (py_getattr msg ''reactions'' PNone) = Inr rs))"
  unfolding to_serializable_Inr by auto

lemma date_field_Inr: "(\<exists>x. date_field msg = Inr x) = date_ok msg"
proof (cases "py_lookup msg ''date''")
  case None
  then show ?thesis by (simp add: date_field_def date_ok_def py_getattr_def)
next
  case (Some d)
  then show ?thesis
    by (cases d) (simp_all add: date_field_def date_ok_def py_getattr_def py_attr_def
                     split: option.splits)
qed

lemma date_field_missing: "py_lookup msg ''date'' = None \<Longrightarrow> date_field msg = Inr PNone"
  by (simp add: date_field_def py_getattr_def)

lemma serialize_reactions_Inr:
  "(\<exists>x. serialize_reactions f r = Inr x) = (truthy r \<longrightarrow> recent_ok r)"
  unfolding serialize_reactions_def recent_ok_def py_or_def Let_def
  by (cases "py_getattr r ''recent_reactions'' PNone") (auto split: sum.splits)

lemma recent_iterable:
  "(\<exists>rrs. py_iter (py_or (py_getattr r ''recent_reactions'' PNone) (PList [])) = Inr rrs) =
     recent_ok r"
  unfolding recent_ok_def py_or_def
  by (cases "py_getattr r ''recent_reactions'' PNone") auto

text \<open>
  Claim C6, as the code has it. A missing or falsy reaction container gives the null
  summary. For a container that is present, the recent reactions can be iterated
  exactly when they are missing, falsy, a list or a string; then, \<open>rrs\<close> being what
  they iterate to, the summary's total is the sum of the per-result counts when they
  are available and null otherwise, and the recent list has, at each position, the
  emoticon of that entry, else \<^verbatim>\<open>custom:<document id>\<close>, else the string form, and
  null for an entry that cannot be decoded: the list keeps every position and the
  summary is produced. When the recent reactions cannot be iterated, the exception
  leaves \<^verbatim>\<open>serialize_reactions\<close>: there is no summary and no normalized record.
  Whenever the Normalizer returns a record, its \<open>reactions\<close> field is the summary.
\<close>

theorem reactions_decoded:
  "(\<not> truthy r \<longrightarrow> serialize_reactions f r = Inr None) \<and>
   (truthy r \<and> py_iter (py_or (py_getattr r ''recent_reactions'' PNone) (PList [])) = Inr rrs \<longrightarrow>
      serialize_reactions f r =
        Inr (Some \<lparr>total_count = spec_total r, recent = map (spec_recent_entry f) rrs\<rparr>)) \<and>
   (truthy r \<and> py_iter (py_or (py_getattr r ''recent_reactions'' PNone) (PList [])) = Inl e \<longrightarrow>
      serialize_reactions f r = Inl e \<and>
      (py_getattr msg ''reactions'' PNone = r \<longrightarrow> (\<forall>n. to_serializable f msg \<noteq> Inr n))) \<and>
   ((\<exists>rrs. py_iter (py_or (py_getattr r ''recent_reactions'' PNone) (PList [])) = Inr rrs) =
      recent_ok r) \<and>
   (to_serializable f msg = Inr n \<longrightarrow>
      serialize_reactions f (py_getattr msg ''reactions'' PNone) = Inr (reactions n))"
proof -
  have a: "to_serializable f msg = Inr n \<Longrightarrow>
        serialize_reactions f (py_getattr msg ''reactions'' PNone) = Inr (reactions n)" for n
    unfolding to_serializable_Inr by (auto simp: record_of_def)
  have b: "serialize_reactions f r = Inl e"
    if "truthy r" "py_iter (py_or (py_getattr r ''recent_reactions'' PNone) (PList [])) = Inl e"
    using that by (simp add: serialize_reactions_def Let_def)
  have c: "\<forall>n. to_serializable f msg \<noteq> Inr n"
    if "truthy r" "py_iter (py_or (py_getattr r ''recent_reactions'' PNone) (PList [])) = Inl e"
      "py_getattr msg ''reactions'' PNone = r"
    using a b[OF that(1,2)] that(3) by auto
  have d: "serialize_reactions f r =
        Inr (Some \<lparr>total_count = spec_total r, recent = map (spec_recent_entry f) rrs\<rparr>)"
    if "truthy r" "py_iter (py_or (py_getattr r ''recent_reactions'' PNone) (PList [])) = Inr rrs"
    using that by (simp add: serialize_reactions_def recent_loop_map reactions_total_spec Let_def)
  have e: "\<not> truthy r \<Longrightarrow> serialize_reactions f r = Inr None"
    by (simp add: serialize_reactions_def)
  show ?thesis
    using a b c d e recent_iterable[of r] by blast
qed

theorem reactions_decoded_witness:
  "serialize_reactions demo_str PNone = Inr None \<and>
   serialize_reactions demo_str demo_reactions =
     Inr (Some \<lparr>total_count = Some 5, recent = [PStr ''+'', PStr ''custom:7'', PNone]\<rparr>) \<and>
   (\<exists>n. to_serializable demo_str demo_obj = Inr n \<and>
        reactions n = Some \<lparr>total_count = Some 5, recent = [PStr ''+'', PStr ''custom:7'', PNone]\<rparr>) \<and>
   recent_ok demo_reactions \<and>
   serialize_reactions demo_str (PObj [(''recent_reactions'', PBool True)]) =
     Inl (TypeError ''not iterable'') \<and>
   (\<forall>n. to_serializable demo_str
          (PObj [(''id'', PInt 1), (''sender'', PNone),
                 (''reactions'', PObj [(''recent_reactions'', PBool True)])]) \<noteq> Inr n)"
proof -
  let ?rrs = "[PObj [(''reaction'', PObj [(''emoticon'', PStr ''+'')])],
               PObj [(''reaction'', PObj [(''document_id'', PInt 7)])],
               PObj []]"
  have a: "serialize_reactions demo_str PNone = Inr None"
    using reactions_decoded[where r = PNone and f = demo_str] by simp
  have b: "serialize_reactions demo_str demo_reactions =
     Inr (Some \<lparr>total_count = Some 5, recent = [PStr ''+'', PStr ''custom:7'', PNone]\<rparr>)"
    using reactions_decoded[where r = demo_reactions and f = demo_str and rrs = ?rrs]
    by (simp add: demo_reactions_def demo_str_def py_getattr_def py_or_def spec_total_def
          spec_recent_entry_def count_of_def show_int_def digit_char_def digits.simps)
  obtain n where n: "to_serializable demo_str demo_obj = Inr n"
    using b by (simp add: to_serializable_def py_attr_def demo_obj_def py_getattr_def date_field_def)
  have "serialize_reactions demo_str (py_getattr demo_obj ''reactions'' PNone) = Inr (reactions n)"
    using reactions_decoded[where r = PNone and f = demo_str and msg = demo_obj and n = n] n by simp
  then have c: "reactions n = Some \<lparr>total_count = Some 5, recent = [PStr ''+'', PStr ''custom:7'', PNone]\<rparr>"
    using b by (simp add: demo_obj_def py_getattr_def)
  have d: "recent_ok demo_reactions"
    using reactions_decoded[where r = demo_reactions and f = demo_str]
    by (simp add: demo_reactions_def py_getattr_def py_or_def)
  let ?bad = "PObj [(''recent_reactions'', PBool True)]"
  let ?msg = "PObj [(''id'', PInt 1), (''sender'', PNone), (''reactions'', ?bad)]"
  have e: "serialize_reactions demo_str ?bad = Inl (TypeError ''not iterable'') \<and>
           (\<forall>n. to_serializable demo_str ?msg \<noteq> Inr n)"
    using reactions_decoded[where r = ?bad and f = demo_str and e = "TypeError ''not iterable''"
        and msg = ?msg]
    by (simp add: py_getattr_def py_or_def)
  from a b n c d e show ?thesis by blast
qed

text \<open>
  Claim C6 as stated fails: a reaction container whose \<^verbatim>\<open>recent_reactions\<close> is the
  number \<open>5\<close> makes the loop over the recent reactions raise, outside any \<^verbatim>\<open>try\<close>,
  so there is no summary at all.
\<close>

theorem reactions_decoded_counterexample:
  "truthy (PObj [(''recent_reactions'', PInt 5)]) \<and>
   serialize_reactions demo_str (PObj [(''recent_reactions'', PInt 5)]) =
     Inl (TypeError ''not iterable'') \<and>
   to_serializable demo_str
     (PObj [(''id'', PInt 1), (''sender'', PNone),
            (''reactions'', PObj [(''recent_reactions'', PInt 5)])]) =
     Inl (TypeError ''not iterable'')"
  by (simp add: serialize_reactions_def to_serializable_def py_attr_def date_field_def
        py_getattr_def py_or_def)

text \<open>
  Claim C7, as the code has it. The Normalizer returns a record exactly on the
  well-shaped raw records: those that have a \<^verbatim>\<open>sender\<close> and an \<^verbatim>\<open>id\<close> attribute
  (either may be \<^verbatim>\<open>None\<close>), a date that is missing, falsy or a datetime, and, inside
  a reaction container, recent reactions that are missing, falsy or iterable. On these
  every other missing attribute gives a null field (a false media flag), and a
  \<^verbatim>\<open>None\<close> sender gives null sender names. On every other raw record it raises.
\<close>

theorem normalizer_total_on_well_shaped:
  "((\<exists>n. to_serializable f msg = Inr n) = well_shaped msg) \<and>
   (to_serializable f msg = Inr n \<longrightarrow>
      (py_lookup msg ''date'' = None \<longrightarrow> date n = PNone) \<and>
      (py_lookup msg ''chat_id'' = None \<longrightarrow> chat_id n = PNone) \<and>
      (py_lookup msg ''sender_id'' = None \<longrightarrow> sender_id n = PNone) \<and>
      (py_lookup msg ''message'' = None \<longrightarrow> message n = PNone) \<and>
      (py_lookup msg ''reply_to_msg_id'' = None \<longrightarrow> reply_to_msg_id n = PNone) \<and>
      (py_lookup msg ''views'' = None \<longrightarrow> views n = PNone) \<and>
      (py_lookup msg ''forwards'' = None \<longrightarrow> forwards n = PNone) \<and>
      (py_lookup msg ''reactions'' = None \<longrightarrow> reactions n = None) \<and>
      (py_lookup msg ''media'' = None \<longrightarrow> \<not> media n) \<and>
      (py_lookup msg ''sender'' = Some PNone \<longrightarrow>
         sender_username n = PNone \<and> sender_first_name n = PNone \<and> sender_last_name n = PNone))"
proof -
  have "(\<exists>n. to_serializable f msg = Inr n) = well_shaped msg"
    unfolding to_serializable_returns well_shaped_def date_field_Inr serialize_reactions_Inr
    by simp
  moreover have "reactions n = None"
    if "to_serializable f msg = Inr n" "py_lookup msg ''reactions'' = None"
    using that unfolding to_serializable_Inr
    by (auto simp: py_getattr_def serialize_reactions_def record_of_def)
  moreover have "date n = PNone"
    if "to_serializable f msg = Inr n" "py_lookup msg ''date'' = None"
    using that unfolding to_serializable_Inr
    by (auto simp: date_field_missing record_of_def)
  moreover have
     "(py_lookup msg ''chat_id'' = None \<longrightarrow> chat_id n = PNone) \<and>
      (py_lookup msg ''sender_id'' = None \<longrightarrow> sender_id n = PNone) \<and>
      (py_lookup msg ''message'' = None \<longrightarrow> message n = PNone) \<and>
      (py_lookup msg ''reply_to_msg_id'' = None \<longrightarrow> reply_to_msg_id n = PNone) \<and>
      (py_lookup msg ''views'' = None \<longrightarrow> views n = PNone) \<and>
      (py_lookup msg ''forwards'' = None \<longrightarrow> forwards n = PNone) \<and>
      (py_lookup msg ''media'' = None \<longrightarrow> \<not> media n) \<and>
      (py_lookup msg ''sender'' = Some PNone \<longrightarrow>
         sender_username n = PNone \<and> sender_first_name n = PNone \<and> sender_last_name n = PNone)"
    if "to_serializable f msg = Inr n"
  proof -
    from that[unfolded to_serializable_Inr]
    obtain s i dt rs where s: "py_lookup msg ''sender'' = Some s"
      and n: "n = record_of msg s i dt rs"
      by blast
    show ?thesis
      unfolding n using s by (simp add: record_of_def py_getattr_def)
  qed
  ultimately show ?thesis by blast
qed

theorem normalizer_total_on_well_shaped_witness:
  "well_shaped demo_obj \<and> (\<exists>n. to_serializable demo_str demo_obj = Inr n \<and> views n = PNone)"
proof -
  have ws: "well_shaped demo_obj"
    by (simp add: well_shaped_def demo_obj_def demo_reactions_def date_ok_def recent_ok_def
          py_getattr_def)
  then obtain n where n: "to_serializable demo_str demo_obj = Inr n"
    using normalizer_total_on_well_shaped[of demo_str demo_obj] by blast
  have "py_lookup demo_obj ''views'' = None" by (simp add: demo_obj_def)
  then have "views n = PNone"
    using normalizer_total_on_well_shaped[of demo_str demo_obj n] n by blast
  with ws n show ?thesis by blast
qed

text \<open>
  Claim C7 as stated fails: a record without a \<^verbatim>\<open>sender\<close> attribute makes
  \<^verbatim>\<open>msg.sender\<close> raise, and one without an \<^verbatim>\<open>id\<close> attribute makes \<^verbatim>\<open>msg.id\<close> raise.
\<close>

theorem normalizer_raises_counterexample:
  "to_serializable demo_str (PObj [(''id'', PInt 1)]) = Inl (AttributeError ''sender'') \<and>
   to_serializable demo_str (PObj [(''sender'', PNone)]) = Inl (AttributeError ''id'')"
  by (simp add: to_serializable_def py_attr_def date_field_def serialize_reactions_def
        py_getattr_def)

section \<open>The Side-Effect Fetcher\<close>


lemma map_upt_shift:
  "concat (map g [0..<Suc n]) = g 0 @ concat (map (\<lambda>i. g (Suc i)) [0..<n])"
proof -
  have "[0..<Suc n] = 0 # map Suc [0..<n]"
    by (simp add: upt_conv_Cons map_Suc_upt del: upt_Suc)
  then show ?thesis by (simp add: comp_def del: upt_Suc)
qed

lemma retry_all_errors:
  assumes "\<forall>k. attempt_download f dl k = Err (err k)"
  shows "0 \<le> backoff s \<Longrightarrow> int n = max 0 R - attempt s \<Longrightarrow>
     retry_loop f dl R s =
       Some (s\<lparr>attempt := attempt s + int n + 1,
               backoff := backoff s * 2 ^ n,
               calls := calls s + n + 1,
               evs := evs s @ concat (map (\<lambda>i. [Attempted, Slept (backoff s * 2 ^ i)]) [0..<n])
                        @ [Attempted]\<rparr>,
             None, Some (py_repr (err (calls s + n))))"
proof (induction n arbitrary: s)
  case 0
  then show ?case
    using assms by (subst retry_loop.simps) simp
next
  case (Suc n)
  let ?s = "s\<lparr>attempt := attempt s + 1,
                backoff := (if backoff s > 0 then backoff s * 2 else 0),
                calls := calls s + 1,
                evs := evs s @ [Attempted, Slept (backoff s)]\<rparr>"
  have b: "backoff ?s = backoff s * 2" using Suc.prems by simp
  have more: "\<not> attempt s + 1 > max 0 R" using Suc.prems by linarith
  have step: "retry_loop f dl R s = retry_loop f dl R ?s"
    using assms more by (subst retry_loop.simps) auto
  have "0 \<le> backoff ?s" "int n = max 0 R - attempt ?s"
    using Suc.prems by simp_all
  from Suc.IH[OF this] show ?case
    unfolding step map_upt_shift using Suc.prems
    by (simp add: mult.assoc del: upt_Suc)
qed



lemma retry_floods:
  "(\<forall>k<n. attempt_download f dl (calls s + k) = Flood (w k)) \<Longrightarrow>
   attempt_download f dl (calls s + n) = Ok p \<Longrightarrow>
   retry_loop f dl R s =
     Some (s\<lparr>calls := calls s + n + 1,
             evs := evs s @ concat (map (\<lambda>k. [Attempted, Slept (real_of_int (w k + 1))]) [0..<n])
                      @ [Attempted]\<rparr>,
           Some p, None)"
proof (induction n arbitrary: s w)
  case 0
  then show ?case by (subst retry_loop.simps) simp
next
  case (Suc n)
  let ?s = "s\<lparr>calls := calls s + 1, evs := evs s @ [Attempted, Slept (real_of_int (w 0 + 1))]\<rparr>"
  have "attempt_download f dl (calls s) = Flood (w 0)" using Suc.prems(1) by force
  then have step: "retry_loop f dl R s = retry_loop f dl R ?s"
    by (subst retry_loop.simps) simp
  have "\<forall>k<n. attempt_download f dl (calls ?s + k) = Flood (w (Suc k))"
    using Suc.prems(1) by auto
  moreover have "attempt_download f dl (calls ?s + n) = Ok p"
    using Suc.prems(2) by simp
  ultimately show ?case
    unfolding step map_upt_shift using Suc.IH[of ?s "\<lambda>k. w (Suc k)"]
    by (simp del: upt_Suc)
qed

lemma retry_result_shape:
  "retry_loop f dl R s = Some y \<Longrightarrow>
     (fst (snd y) \<noteq> None \<and> snd (snd y) = None) \<or> (fst (snd y) = None \<and> snd (snd y) \<noteq> None)"
proof (induction rule: retry_loop.raw_induct[rotated 1, consumes 1])
  case (1 loop f dl R s y)
  show ?case
  proof (cases "attempt_download f dl (calls s)")
    case (Ok p)
    with 1(2) show ?thesis by auto
  next
    case (Flood secs)
    with 1(2) 1(1) show ?thesis by auto
  next
    case (Err e)
    with 1(2) 1(1) show ?thesis
      by (auto split: if_splits)
  qed
qed

lemma retry_reaches:
  "\<not> is_flood (attempt_download f dl (calls s + d)) \<Longrightarrow>
   (\<And>s'. attempt s' = attempt s + 1 \<Longrightarrow> attempt s' \<le> max 0 R \<Longrightarrow>
      \<exists>y. retry_loop f dl R s' = Some y) \<Longrightarrow>
   \<exists>y. retry_loop f dl R s = Some y"
proof (induction d arbitrary: s)
  case 0
  show ?case
  proof (cases "attempt_download f dl (calls s)")
    case (Ok p)
    then show ?thesis by (subst retry_loop.simps) simp
  next
    case (Flood secs)
    with 0 show ?thesis by simp
  next
    case (Err e)
    show ?thesis
    proof (cases "attempt s + 1 > max 0 R")
      case True
      with Err show ?thesis by (subst retry_loop.simps) simp
    next
      case False
      let ?s = "s\<lparr>attempt := attempt s + 1,
                    backoff := (if backoff s > 0 then backoff s * 2 else 0),
                    calls := calls s + 1,
                    evs := evs s @ [Attempted, Slept (backoff s)]\<rparr>"
      have le: "attempt s + 1 \<le> max 0 R" using False by linarith
      have "\<exists>y. retry_loop f dl R ?s = Some y"
        using le by (intro 0(2)) simp_all
      then show ?thesis
        using Err False by (subst retry_loop.simps) simp
    qed
  qed
next
  case (Suc d)
  show ?case
  proof (cases "attempt_download f dl (calls s)")
    case (Ok p)
    then show ?thesis by (subst retry_loop.simps) simp
  next
    case (Flood secs)
    let ?s = "s\<lparr>calls := calls s + 1, evs := evs s @ [Attempted, Slept (real_of_int (secs + 1))]\<rparr>"
    have "\<exists>y. retry_loop f dl R ?s = Some y"
    proof (rule Suc.IH)
      show "\<not> is_flood (attempt_download f dl (calls ?s + d))"
        using Suc.prems(1) by simp
    next
      fix s' :: retry_state assume "attempt s' = attempt ?s + 1" "attempt s' \<le> max 0 R"
      then show "\<exists>y. retry_loop f dl R s' = Some y"
        by (intro Suc.prems(2)) simp_all
    qed
    then show ?thesis using Flood by (subst retry_loop.simps) simp
  next
    case (Err e)
    show ?thesis
    proof (cases "attempt s + 1 > max 0 R")
      case True
      with Err show ?thesis by (subst retry_loop.simps) simp
    next
      case False
      let ?s = "s\<lparr>attempt := attempt s + 1,
                    backoff := (if backoff s > 0 then backoff s * 2 else 0),
                    calls := calls s + 1,
                    evs := evs s @ [Attempted, Slept (backoff s)]\<rparr>"
      have le: "attempt s + 1 \<le> max 0 R" using False by linarith
      have "\<exists>y. retry_loop f dl R ?s = Some y"
        using le by (intro Suc.prems(2)) simp_all
      then show ?thesis
        using Err False by (subst retry_loop.simps) simp
    qed
  qed
qed

lemma retry_returns:
  assumes "\<forall>n. \<exists>k\<ge>n. \<not> is_flood (attempt_download f dl k)"
  shows "\<exists>y. retry_loop f dl R s = Some y"
proof (induction "nat (max 0 R - attempt s)" arbitrary: s rule: less_induct)
  case less
  obtain k where k: "k \<ge> calls s" "\<not> is_flood (attempt_download f dl k)"
    using assms by blast
  have later: "\<exists>y. retry_loop f dl R s' = Some y"
    if "attempt s' = attempt s + 1" "attempt s' \<le> max 0 R" for s'
  proof (rule less)
    show "nat (max 0 R - attempt s') < nat (max 0 R - attempt s)"
      using that by linarith
  qed
  show ?case
    using retry_reaches[of f dl s "k - calls s" R] later k by simp
qed

lemma attempt_download_flood:
  "is_flood (attempt_download f dl k) = throttled (dl k)"
  unfolding attempt_download_def
  by (cases "dl k") (simp_all split: sum.splits)

text \<open>
  Claim C2. With a media directory configured and a source that raises a non-throttling
  error on every call, the fetcher makes exactly \<open>1 + max 0 R\<close> download attempts for
  \<open>R\<close> configured retries, sleeps the current backoff after each attempt but the last
  (the backoff starts at \<open>max 0\<close> of the configured one and doubles each time, so a
  zero backoff stays zero), and returns no path and the description of the last error.
  It returns a value: no exception leaves it.
\<close>

theorem retry_budget_exhausted:
  assumes "media_dir_path a = Some d"
    and "\<forall>k. download_media msg k = Raises (err k)"
  shows "\<exists>st. download_with_retry a f msg = Some (st, None, Some (py_repr (err (nat (max 0 (max_retries a)))))) \<and>
           calls st = 1 + nat (max 0 (max_retries a)) \<and>
           attempt st = 1 + max 0 (max_retries a) \<and>
           evs st =
             concat (map (\<lambda>i. [Attempted, Slept (max 0 (retry_backoff a) * 2 ^ i)])
                       [0..<nat (max 0 (max_retries a))]) @ [Attempted]"
proof -
  have e: "\<forall>k. attempt_download f (download_media msg) k = Err (err k)"
    using assms(2) by (simp add: attempt_download_def)
  have "0 \<le> backoff (retry_init a)"
    "int (nat (max 0 (max_retries a))) = max 0 (max_retries a) - attempt (retry_init a)"
    by (simp_all add: retry_init_def)
  from retry_all_errors[OF e this] show ?thesis
    unfolding download_with_retry_def using assms(1)
    by (simp add: retry_init_def)
qed

theorem retry_budget_exhausted_witness:
  "\<exists>st. download_with_retry demo_args demo_str failing_record =
          Some (st, None, Some ''ConnectionError()'') \<and>
        calls st = 4 \<and> attempt st = 4 \<and>
        evs st = [Attempted, Slept (3 / 2), Attempted, Slept 3, Attempted, Slept 6, Attempted]"
proof -
  have d: "media_dir_path demo_args = Some ''media''"
    by (simp add: media_dir_path_def demo_args_def)
  have r: "\<forall>k. download_media failing_record k = Raises (Raised ''ConnectionError()'')"
    by (simp add: failing_record_def)
  have n3: "[0..<nat (max 0 (max_retries demo_args))] = [0, 1, 2]"
    by (simp add: demo_args_def upt_rec)
  show ?thesis
    using retry_budget_exhausted[OF d r, of demo_str] unfolding n3
    by (auto simp: demo_args_def)
qed

text \<open>
  Claim C3. A throttling signal with wait \<open>w\<close> makes the loop sleep \<open>w + 1\<close> and go on
  from a state whose attempt counter is unchanged. Hence \<open>n\<close> throttling responses in
  a row followed by a success give the path, with the attempt counter still at zero, one
  sleep of \<open>w + 1\<close> per throttling response and \<open>n + 1\<close> download calls.
\<close>

theorem throttling_not_counted:
  "(attempt_download f dl (calls s) = Flood secs \<longrightarrow>
      retry_loop f dl R s =
        retry_loop f dl R
          (s\<lparr>calls := calls s + 1,
             evs := evs s @ [Attempted, Slept (real_of_int (secs + 1))]\<rparr>)) \<and>
   (media_dir_path a = Some d \<and>
    (\<forall>k<n. download_media msg k = FloodWaitError (w k)) \<and>
    download_media msg n = Downloaded v \<and> py_str f v = Inr p \<longrightarrow>
      (\<exists>st. download_with_retry a f msg = Some (st, Some p, None) \<and>
            attempt st = 0 \<and> calls st = n + 1 \<and>
            evs st = concat (map (\<lambda>k. [Attempted, Slept (real_of_int (w k + 1))]) [0..<n])
                       @ [Attempted]))"
proof (intro conjI impI)
  assume "attempt_download f dl (calls s) = Flood secs"
  then show "retry_loop f dl R s =
        retry_loop f dl R
          (s\<lparr>calls := calls s + 1,
             evs := evs s @ [Attempted, Slept (real_of_int (secs + 1))]\<rparr>)"
    by (subst retry_loop.simps) simp
next
  assume h: "media_dir_path a = Some d \<and>
    (\<forall>k<n. download_media msg k = FloodWaitError (w k)) \<and>
    download_media msg n = Downloaded v \<and> py_str f v = Inr p"
  have "\<forall>k<n. attempt_download f (download_media msg) (calls (retry_init a) + k) = Flood (w k)"
    using h by (simp add: attempt_download_def retry_init_def)
  moreover have "attempt_download f (download_media msg) (calls (retry_init a) + n) = Ok p"
    using h by (simp add: attempt_download_def retry_init_def)
  ultimately show "\<exists>st. download_with_retry a f msg = Some (st, Some p, None) \<and>
            attempt st = 0 \<and> calls st = n + 1 \<and>
            evs st = concat (map (\<lambda>k. [Attempted, Slept (real_of_int (w k + 1))]) [0..<n])
                       @ [Attempted]"
    unfolding download_with_retry_def using h retry_floods[of n f "download_media msg" "retry_init a" w p]
    by (simp add: retry_init_def)
qed

theorem throttling_not_counted_witness:
  "\<exists>st. download_with_retry demo_args demo_str throttled_record = Some (st, Some ''media/1.jpg'', None) \<and>
        attempt st = 0 \<and> calls st = 4 \<and>
        evs st = [Attempted, Slept 3, Attempted, Slept 3, Attempted, Slept 3, Attempted]"
proof -
  have d: "media_dir_path demo_args = Some ''media''"
    by (simp add: media_dir_path_def demo_args_def)
  have h: "media_dir_path demo_args = Some ''media'' \<and>
    (\<forall>k<3. download_media throttled_record k = FloodWaitError ((\<lambda>k. 2) k)) \<and>
    download_media throttled_record 3 = Downloaded (PStr ''media/1.jpg'') \<and>
    py_str demo_str (PStr ''media/1.jpg'') = Inr ''media/1.jpg''"
    using d by (simp add: throttled_record_def)
  have n3: "[0..<3] = [0, 1, Suc 1]"
    by (simp add: upt_rec)
  show ?thesis
    using throttling_not_counted[of demo_str "download_media throttled_record" "retry_init demo_args" 0 0
            demo_args "''media''" 3 throttled_record "\<lambda>k. 2" "PStr ''media/1.jpg''" "''media/1.jpg''"]
      h unfolding n3
    by auto
qed

section \<open>Batches of a list\<close>

lemma full_chunks_short: "length xs < b \<Longrightarrow> full_chunks b xs = []"
  by (subst full_chunks.simps) simp

lemma rest_chunk_short: "length xs < b \<Longrightarrow> rest_chunk b xs = xs"
  by (subst rest_chunk.simps) simp

lemma full_chunks_step:
  "0 < b \<Longrightarrow> length xs = b \<Longrightarrow> full_chunks b (xs @ ys) = xs # full_chunks b ys"
  by (subst full_chunks.simps) simp

lemma rest_chunk_step:
  "0 < b \<Longrightarrow> length xs = b \<Longrightarrow> rest_chunk b (xs @ ys) = rest_chunk b ys"
  by (subst rest_chunk.simps) simp

lemma concat_full_chunks: "concat (full_chunks b xs) @ rest_chunk b xs = xs"
proof (induction b xs rule: full_chunks.induct)
  case (1 b xs)
  show ?case
  proof (cases "b = 0 \<or> length xs < b")
    case True
    then show ?thesis
      by (subst full_chunks.simps, subst rest_chunk.simps) simp
  next
    case False
    with 1 show ?thesis
      by (subst full_chunks.simps, subst rest_chunk.simps) simp
  qed
qed

lemma concat_chunks: "concat (chunks b xs) = xs"
  using concat_full_chunks[of b xs] by (auto simp: chunks_def)

lemma full_chunks_length: "c \<in> set (full_chunks b xs) \<Longrightarrow> length c = b"
proof (induction b xs rule: full_chunks.induct)
  case (1 b xs)
  show ?case
  proof (cases "b = 0 \<or> length xs < b")
    case True
    with 1(2) show ?thesis by (subst (asm) full_chunks.simps) simp
  next
    case False
    with 1 show ?thesis by (subst (asm) (2) full_chunks.simps) auto
  qed
qed

lemma rest_chunk_length: "0 < b \<Longrightarrow> length (rest_chunk b xs) < b"
proof (induction b xs rule: rest_chunk.induct)
  case (1 b xs)
  show ?case
  proof (cases "length xs < b")
    case True
    then show ?thesis by (simp add: rest_chunk_short)
  next
    case False
    with 1 show ?thesis by (subst rest_chunk.simps) simp
  qed
qed

lemma length_full_chunks: "0 < b \<Longrightarrow> length (full_chunks b xs) = length xs div b"
proof (induction b xs rule: full_chunks.induct)
  case (1 b xs)
  show ?case
  proof (cases "length xs < b")
    case True
    then show ?thesis by (simp add: full_chunks_short)
  next
    case False
    then have "length xs div b = Suc ((length xs - b) div b)"
      using 1(2) by (simp add: le_div_geq)
    with False 1 show ?thesis by (subst full_chunks.simps) simp
  qed
qed

lemma length_rest_chunk: "0 < b \<Longrightarrow> length (rest_chunk b xs) = length xs mod b"
proof (induction b xs rule: rest_chunk.induct)
  case (1 b xs)
  show ?case
  proof (cases "length xs < b")
    case True
    then show ?thesis by (simp add: rest_chunk_short)
  next
    case False
    then have "length xs mod b = (length xs - b) mod b"
      by (simp add: le_mod_geq)
    with False 1 show ?thesis by (subst rest_chunk.simps) simp
  qed
qed

lemma ceil_div:
  fixes n b :: nat
  assumes b: "0 < b"
  shows "(n + b - 1) div b = n div b + (if n mod b = 0 then 0 else 1)"
proof -
  define q r where "q = n div b" and "r = n mod b"
  have n: "n = q * b + r" and r: "r < b" using b by (simp_all add: q_def r_def)
  have "n + b - 1 = (r + b - 1) + q * b" using b n by simp
  then have "(n + b - 1) div b = q + (r + b - 1) div b"
    using b by (simp only: div_mult_self1)
  moreover have "(r + b - 1) div b = (if r = 0 then 0 else 1)"
  proof (cases "r = 0")
    case True
    then show ?thesis using b by simp
  next
    case False
    then have "r + b - 1 = (r - 1) + 1 * b" by simp
    then have "(r + b - 1) div b = 1 + (r - 1) div b"
      using b by (simp only: div_mult_self1)
    then show ?thesis using False r by simp
  qed
  ultimately show ?thesis by (simp add: q_def r_def)
qed

lemma length_chunks:
  assumes "0 < b"
  shows "length (chunks b xs) = (length xs + b - 1) div b"
proof -
  have "(rest_chunk b xs = []) = (length xs mod b = 0)"
    using length_rest_chunk[OF assms, of xs] by auto
  then show ?thesis
    using ceil_div[OF assms, of "length xs"]
    by (simp add: chunks_def length_full_chunks[OF assms])
qed

lemma length_chunks_one: "length (chunks (Suc 0) xs) = length xs"
proof -
  have "length (chunks (Suc 0) xs) = (length xs + Suc 0 - 1) div Suc 0"
    by (rule length_chunks) simp
  then show ?thesis by simp
qed

lemma chunks_sizes:
  assumes "0 < b"
  shows "(\<forall>j. Suc j < length (chunks b xs) \<longrightarrow> length (chunks b xs ! j) = b) \<and>
         (\<forall>c\<in>set (chunks b xs). c \<noteq> [] \<and> length c \<le> b)"
proof -
  have full: "\<And>c. c \<in> set (full_chunks b xs) \<Longrightarrow> length c = b"
    by (rule full_chunks_length)
  have "length (chunks b xs ! j) = b" if "Suc j < length (chunks b xs)" for j
  proof -
    have "j < length (full_chunks b xs)" using that by (simp add: chunks_def split: if_splits)
    then show ?thesis using full by (simp add: chunks_def nth_append)
  qed
  moreover have "c \<noteq> [] \<and> length c \<le> b" if "c \<in> set (chunks b xs)" for c
    using that full[of c] rest_chunk_length[OF assms, of xs] assms
    by (auto simp: chunks_def split: if_splits)
  ultimately show ?thesis by blast
qed


section \<open>Names of the batch files\<close>

lemma digit_val_char: "d < 10 \<Longrightarrow> digit_val (digit_char d) = d"
proof -
  assume "d < 10"
  then have "d \<in> {0, 1, 2, 3, 4, 5, 6, 7, 8, 9}" by auto
  then show ?thesis
    by (elim insertE emptyE) (simp_all add: digit_val_def digit_char_def)
qed

lemma dec_val_snoc: "dec_val (s @ [c]) = 10 * dec_val s + digit_val c"
  by (simp add: dec_val_def)

lemma dec_val_digits: "dec_val (digits n) = n"
proof (induction n rule: digits.induct)
  case (1 n)
  show ?case
  proof (cases "n < 10")
    case True
    then show ?thesis
      by (subst digits.simps) (simp add: dec_val_def digit_val_char)
  next
    case False
    with 1 show ?thesis
      by (subst digits.simps) (simp add: dec_val_snoc digit_val_char)
  qed
qed

lemma dec_val_zeros: "dec_val (replicate k CHR ''0'' @ s) = dec_val s"
proof -
  have "foldl (\<lambda>acc c. 10 * acc + digit_val c) 0 (replicate k CHR ''0'') = 0"
    by (induction k) (simp_all add: digit_val_def)
  then show ?thesis by (simp add: dec_val_def)
qed

lemma dec_val_fmt: "dec_val (fmt_05d idx) = idx"
  by (simp add: fmt_05d_def dec_val_zeros dec_val_digits)

lemma length_digits: "0 < k \<Longrightarrow> n < 10 ^ k \<Longrightarrow> length (digits n) \<le> k"
proof (induction n arbitrary: k rule: digits.induct)
  case (1 n)
  show ?case
  proof (cases "n < 10")
    case True
    then show ?thesis using 1(2) by (subst digits.simps) simp
  next
    case False
    then obtain k' where k: "k = Suc k'" "0 < k'"
      using 1(2,3) by (cases k; cases "k - 1") auto
    then have "n div 10 < 10 ^ k'" using 1(3) by (simp add: less_mult_imp_div_less mult.commute)
    from 1(1)[OF False k(2) this] k False show ?thesis
      by (subst digits.simps) simp
  qed
qed

lemma length_digits_ge: "10 ^ k \<le> n \<Longrightarrow> k < length (digits n)"
proof (induction n arbitrary: k rule: digits.induct)
  case (1 n)
  show ?case
  proof (cases "n < 10")
    case True
    have "k = 0"
    proof (rule ccontr)
      assume "k \<noteq> 0"
      then have "(10::nat) ^ 1 \<le> 10 ^ k" by (intro power_increasing) simp_all
      with True 1(2) show False by simp
    qed
    then show ?thesis by (subst digits.simps) simp
  next
    case False
    show ?thesis
    proof (cases k)
      case 0
      then show ?thesis by (subst digits.simps) simp
    next
      case (Suc k')
      then have "10 ^ k' \<le> n div 10" using 1(2) by (simp add: less_eq_div_iff_mult_less_eq)
      from 1(1)[OF False this] Suc False show ?thesis
        by (subst digits.simps) simp
    qed
  qed
qed

lemma fmt_05d_width:
  "length (fmt_05d idx) = (if idx < 100000 then 5 else length (digits idx)) \<and>
   (100000 \<le> idx \<longrightarrow> 5 < length (digits idx))"
proof -
  have a: "idx < 100000 \<Longrightarrow> length (digits idx) \<le> 5"
    using length_digits[of 5 idx] by simp
  have b: "100000 \<le> idx \<Longrightarrow> 5 < length (digits idx)"
    using length_digits_ge[of 5 idx] by simp
  show ?thesis using a b by (auto simp: fmt_05d_def)
qed

lemma batch_file_inj: "(batch_file p i = batch_file p j) = (i = j)"
proof
  assume "batch_file p i = batch_file p j"
  then have "fmt_05d i = fmt_05d j" by (simp add: batch_file_def)
  then have "dec_val (fmt_05d i) = dec_val (fmt_05d j)" by simp
  then show "i = j" by (simp add: dec_val_fmt)
qed simp

section \<open>One record\<close>

lemma download_returns:
  assumes "\<forall>n. \<exists>k\<ge>n. \<not> throttled (download_media m k)"
  shows "\<exists>y. download_with_retry a f m = Some y"
  using assms retry_returns[of f "download_media m" "max_retries a" "retry_init a"]
  unfolding download_with_retry_def attempt_download_flood by (simp split: option.splits)

lemma build_record_returns:
  assumes "\<forall>n. \<exists>k\<ge>n. \<not> throttled (download_media m k)"
  shows "\<exists>r es. build_record a f m = Some (r, es)"
proof (cases "to_serializable f (obj m)")
  case (Inl e)
  then show ?thesis by (simp add: build_record_def)
next
  case (Inr r0)
  obtain st fn err where "download_with_retry a f m = Some (st, fn, err)"
    using download_returns[OF assms, of a f] by (metis prod_cases3)
  with Inr show ?thesis by (simp add: build_record_def)
qed

lemma attach_reset:
  "media_path r0 = None \<Longrightarrow> media_error r0 = None \<Longrightarrow>
   (attach r0 fn err)\<lparr>media_path := None, media_error := None\<rparr> = r0"
proof -
  assume "media_path r0 = None" "media_error r0 = None"
  then have r0: "r0\<lparr>media_path := None, media_error := None\<rparr> = r0"
    by (cases r0) simp
  show ?thesis
    by (cases fn; cases err) (simp_all add: attach_def Let_def r0)
qed

lemma fresh_record:
  "to_serializable f msg = Inr r0 \<Longrightarrow> media_path r0 = None \<and> media_error r0 = None"
  unfolding to_serializable_Inr by (auto simp: record_of_def)

lemma build_record_Inr:
  assumes "build_record a f m = Some (Inr nr, es)"
  shows "to_serializable f (obj m) = Inr (nr\<lparr>media_path := None, media_error := None\<rparr>)"
proof (cases "to_serializable f (obj m)")
  case (Inl e)
  with assms show ?thesis by (simp add: build_record_def)
next
  case (Inr r0)
  note f0 = fresh_record[OF Inr]
  have r0: "r0\<lparr>media_path := None, media_error := None\<rparr> = r0"
    using f0 by (cases r0) simp
  show ?thesis
  proof (cases "media_dir_path a \<noteq> None \<and> truthy (py_getattr (obj m) ''media'' PNone)")
    case False
    with assms Inr r0 show ?thesis by (auto simp: build_record_def)
  next
    case True
    then obtain st fn err where "nr = attach r0 fn err"
      using assms Inr by (auto simp: build_record_def split: option.splits)
    then show ?thesis using Inr f0 by (simp add: attach_reset)
  qed
qed

lemma batch_entry_for:
  "build_record a f m = Some (r, es) \<Longrightarrow> entry_for f m (batch_entry m r)"
  by (cases r) (simp_all add: batch_entry_def placeholder_def build_record_Inr)

lemma stream_line_for:
  "build_record a f m = Some (r, es) \<Longrightarrow> stream_line m r = Inr l \<Longrightarrow> entry_for f m l"
  by (cases r)
     (auto simp: stream_line_def json_dumps_def placeholder_def build_record_Inr
           split: if_splits)

lemma stream_line_returns:
  "json_ok (py_getattr (obj m) ''id'' PNone) \<Longrightarrow> \<exists>l. stream_line m r = Inr l"
  by (cases r) (auto simp: stream_line_def json_dumps_def placeholder_def)

section \<open>Traces\<close>

lemma dumped_append: "dumped (xs @ ys) = dumped xs @ dumped ys"
  by (induction xs rule: dumped.induct) simp_all

lemma dumped_Fetcher: "dumped (map Fetcher xs) = []"
  by (induction xs) simp_all

lemma dumped_Paused: "dumped (map Paused xs) = []"
  by (induction xs) simp_all

lemma pauses_append: "pauses (xs @ ys) = pauses xs @ pauses ys"
  by (induction xs rule: pauses.induct) simp_all

lemma pauses_Fetcher: "pauses (map Fetcher xs) = []"
  by (induction xs) simp_all

lemma pauses_Paused: "pauses (map Paused xs) = xs"
  by (induction xs) simp_all

lemma pace_fields:
  "files (pace a st) = files st" "written (pace a st) = written st"
  "batch (pace a st) = batch st" "batch_idx (pace a st) = batch_idx st"
  "pbar_total (pace a st) = pbar_total st"
  "dumped (events (pace a st)) = dumped (events st)"
  "pauses (events (pace a st)) = pauses (events st) @ maybe_rate_sleep a (int (written st))"
  by (simp_all add: pace_def dumped_append dumped_Paused pauses_append pauses_Paused)

lemma paced_Nil: "paced a i i = []"
  by (simp add: paced_def)

lemma paced_step: "i \<le> j \<Longrightarrow> maybe_rate_sleep a (int (Suc i)) @ paced a (Suc i) (Suc j) = paced a i (Suc j)"
  unfolding paced_def by (subst (2) upt_conv_Cons) simp_all

section \<open>The streaming loop\<close>

lemma stream_body_run:
  assumes "\<forall>n. \<exists>k\<ge>n. \<not> throttled (download_media m k)"
    and "json_ok (py_getattr (obj m) ''id'' PNone)"
    and "files st (path_file (json a)) = Some (JsonLines ls0)"
  shows "\<exists>st' l. stream_body a f st m = Some (Inr st') \<and> entry_for f m l \<and>
           files st' = (files st)(path_file (json a) \<mapsto> JsonLines (ls0 @ [l])) \<and>
           written st' = written st + 1 \<and> pbar_total st' = pbar_total st \<and>
           dumped (events st') = dumped (events st) \<and>
           pauses (events st') = pauses (events st) @ maybe_rate_sleep a (int (Suc (written st)))"
proof -
  obtain r es where b: "build_record a f m = Some (r, es)"
    using build_record_returns[OF assms(1)] by blast
  obtain l where l: "stream_line m r = Inr l"
    using stream_line_returns[OF assms(2)] by blast
  have "entry_for f m l" using stream_line_for[OF b l] .
  then show ?thesis
    using b l assms(3)
    by (simp add: stream_body_def pace_fields append_line_def dumped_append dumped_Fetcher
          pauses_append pauses_Fetcher)
       blast
qed

lemma stream_loop_run:
  assumes "\<forall>m\<in>set msgs. (\<forall>n. \<exists>k\<ge>n. \<not> throttled (download_media m k)) \<and>
              json_ok (py_getattr (obj m) ''id'' PNone)"
    and "files st (path_file (json a)) = Some (JsonLines ls0)"
  shows "\<exists>st' ls. stream_loop a f st msgs = Some (Inr st') \<and> list_all2 (entry_for f) msgs ls \<and>
           files st' = (files st)(path_file (json a) \<mapsto> JsonLines (ls0 @ ls)) \<and>
           written st' = written st + length msgs \<and> pbar_total st' = pbar_total st \<and>
           dumped (events st') = dumped (events st) \<and>
           pauses (events st') =
             pauses (events st) @ paced a (written st) (written st + length msgs)"
  using assms
proof (induction msgs arbitrary: st ls0)
  case Nil
  then have "(files st)(path_file (json a) \<mapsto> JsonLines ls0) = files st"
    by (intro fun_upd_idem) simp
  then show ?case by (intro exI[of _ st] exI[of _ "[]"]) (simp add: paced_Nil)
next
  case (Cons m msgs)
  obtain st1 l where s1: "stream_body a f st m = Some (Inr st1)" "entry_for f m l"
      "files st1 = (files st)(path_file (json a) \<mapsto> JsonLines (ls0 @ [l]))"
      "written st1 = written st + 1" "pbar_total st1 = pbar_total st"
      "dumped (events st1) = dumped (events st)"
      "pauses (events st1) = pauses (events st) @ maybe_rate_sleep a (int (Suc (written st)))"
    using stream_body_run[of m st a ls0 f] Cons.prems by auto
  have p1: "\<forall>m\<in>set msgs. (\<forall>n. \<exists>k\<ge>n. \<not> throttled (download_media m k)) \<and>
              json_ok (py_getattr (obj m) ''id'' PNone)"
    using Cons.prems(1) by simp
  have "files st1 (path_file (json a)) = Some (JsonLines (ls0 @ [l]))"
    using s1(3) by simp
  from Cons.IH[OF p1 this]
  obtain st' ls where s2: "stream_loop a f st1 msgs = Some (Inr st')"
      "list_all2 (entry_for f) msgs ls"
      "files st' = (files st1)(path_file (json a) \<mapsto> JsonLines ((ls0 @ [l]) @ ls))"
      "written st' = written st1 + length msgs" "pbar_total st' = pbar_total st1"
      "dumped (events st') = dumped (events st1)"
      "pauses (events st') = pauses (events st1) @ paced a (written st1) (written st1 + length msgs)"
    by blast
  have "maybe_rate_sleep a (int (Suc (written st))) @
          paced a (Suc (written st)) (Suc (written st + length msgs)) =
        paced a (written st) (Suc (written st + length msgs))"
    by (rule paced_step) simp
  then show ?case
    using s1 s2 by (intro exI[of _ st'] exI[of _ "l # ls"]) simp
qed

section \<open>The batch loop\<close>

lemma write_batch_ok:
  "list_all json_ok_entry es \<Longrightarrow>
   write_batch p es idx st =
     Inr (st\<lparr>files := (files st)(batch_file p idx \<mapsto> JsonArray es),
             events := events st @ [Dumped (batch_file p idx) es]\<rparr>)"
  by (simp add: write_batch_def)

lemma batch_body_run:
  assumes "\<forall>n. \<exists>k\<ge>n. \<not> throttled (download_media m k)"
    and "\<forall>r es. build_record a f m = Some (r, es) \<longrightarrow> json_ok_entry (batch_entry m r)"
    and "0 < b" "length (batch st) < nat b" "list_all json_ok_entry (batch st)"
  shows "\<exists>e st'. batch_body a f b st m = Some (Inr st') \<and> entry_for f m e \<and> json_ok_entry e \<and>
           written st' = written st + 1 \<and> pbar_total st' = pbar_total st \<and>
           pauses (events st') = pauses (events st) @ maybe_rate_sleep a (int (Suc (written st))) \<and>
           (if Suc (length (batch st)) = nat b
            then batch st' = [] \<and> batch_idx st' = Suc (batch_idx st) \<and>
                 dumped (events st') =
                   dumped (events st) @ [(batch_file (json a) (batch_idx st), batch st @ [e])] \<and>
                 files st' =
                   (files st)(batch_file (json a) (batch_idx st) \<mapsto> JsonArray (batch st @ [e]))
            else batch st' = batch st @ [e] \<and> batch_idx st' = batch_idx st \<and>
                 dumped (events st') = dumped (events st) \<and> files st' = files st)"
proof -
  obtain r es where b: "build_record a f m = Some (r, es)"
    using build_record_returns[OF assms(1)] by blast
  let ?e = "batch_entry m r"
  have e: "entry_for f m ?e" "json_ok_entry ?e"
    using batch_entry_for[OF b] assms(2) b by auto
  have all: "list_all json_ok_entry (batch st @ [?e])"
    using assms(5) e(2) by simp
  have full: "(b \<le> int (Suc (length (batch st)))) = (Suc (length (batch st)) = nat b)"
    using assms(3,4) by linarith
  show ?thesis
  proof (cases "Suc (length (batch st)) = nat b")
    case True
    then have "b \<le> int (Suc (length (batch st)))" using full by simp
    then show ?thesis
      using b e True
      by (intro exI[of _ ?e])
         (simp add: batch_body_def write_batch_ok[OF all] pace_fields dumped_append dumped_Fetcher
            pauses_append pauses_Fetcher)
  next
    case False
    then have "\<not> b \<le> int (Suc (length (batch st)))" using full by simp
    then show ?thesis
      using b e False
      by (intro exI[of _ ?e])
         (simp add: batch_body_def pace_fields dumped_append dumped_Fetcher
            pauses_append pauses_Fetcher)
  qed
qed

lemma batch_files_append:
  "batch_files p idx (cs @ ds) = batch_files p idx cs @ batch_files p (idx + length cs) ds"
  by (induction cs arbitrary: idx) simp_all

lemma write_all_append: "write_all (xs @ ys) fs = write_all ys (write_all xs fs)"
  by (induction xs arbitrary: fs) auto

lemma batch_loop_run:
  assumes "0 < b"
    and "\<forall>m\<in>set msgs. (\<forall>n. \<exists>k\<ge>n. \<not> throttled (download_media m k)) \<and>
            (\<forall>r es. build_record a f m = Some (r, es) \<longrightarrow> json_ok_entry (batch_entry m r))"
    and "length (batch st) < nat b" "list_all json_ok_entry (batch st)"
  shows "\<exists>st' es. batch_loop a f b st msgs = Some (Inr st') \<and>
           list_all2 (entry_for f) msgs es \<and> list_all json_ok_entry es \<and>
           written st' = written st + length msgs \<and> pbar_total st' = pbar_total st \<and>
           pauses (events st') =
             pauses (events st) @ paced a (written st) (written st + length msgs) \<and>
           batch st' = rest_chunk (nat b) (batch st @ es) \<and>
           batch_idx st' = batch_idx st + length (full_chunks (nat b) (batch st @ es)) \<and>
           dumped (events st') =
             dumped (events st) @
             batch_files (json a) (batch_idx st) (full_chunks (nat b) (batch st @ es)) \<and>
           files st' =
             write_all (batch_files (json a) (batch_idx st) (full_chunks (nat b) (batch st @ es)))
               (files st)"
  using assms(2-)
proof (induction msgs arbitrary: st)
  case Nil
  then show ?case
    by (intro exI[of _ st] exI[of _ "[]"])
       (simp add: rest_chunk_short full_chunks_short paced_Nil)
next
  case (Cons m msgs)
  have nb: "0 < nat b" using assms(1) by simp
  have pm: "\<forall>n. \<exists>k\<ge>n. \<not> throttled (download_media m k)"
    "\<forall>r es. build_record a f m = Some (r, es) \<longrightarrow> json_ok_entry (batch_entry m r)"
    using Cons.prems(1) by simp_all
  have pr: "\<forall>m\<in>set msgs. (\<forall>n. \<exists>k\<ge>n. \<not> throttled (download_media m k)) \<and>
            (\<forall>r es. build_record a f m = Some (r, es) \<longrightarrow> json_ok_entry (batch_entry m r))"
    using Cons.prems(1) by simp
  from batch_body_run[OF pm assms(1) Cons.prems(2,3)]
  obtain st1 e where s1: "batch_body a f b st m = Some (Inr st1)" "entry_for f m e"
      "json_ok_entry e" "written st1 = written st + 1" "pbar_total st1 = pbar_total st"
      "pauses (events st1) = pauses (events st) @ maybe_rate_sleep a (int (Suc (written st)))"
    and sw: "if Suc (length (batch st)) = nat b
            then batch st1 = [] \<and> batch_idx st1 = Suc (batch_idx st) \<and>
                 dumped (events st1) =
                   dumped (events st) @ [(batch_file (json a) (batch_idx st), batch st @ [e])] \<and>
                 files st1 =
                   (files st)(batch_file (json a) (batch_idx st) \<mapsto> JsonArray (batch st @ [e]))
            else batch st1 = batch st @ [e] \<and> batch_idx st1 = batch_idx st \<and>
                 dumped (events st1) = dumped (events st) \<and> files st1 = files st"
    by blast
  have inv: "length (batch st1) < nat b" "list_all json_ok_entry (batch st1)"
    using sw Cons.prems(2,3) s1(3) nb by (auto split: if_splits)
  from Cons.IH[OF pr inv]
  obtain st' es where s2: "batch_loop a f b st1 msgs = Some (Inr st')"
      "list_all2 (entry_for f) msgs es" "list_all json_ok_entry es"
      "written st' = written st1 + length msgs" "pbar_total st' = pbar_total st1"
      "pauses (events st') = pauses (events st1) @ paced a (written st1) (written st1 + length msgs)"
      "batch st' = rest_chunk (nat b) (batch st1 @ es)"
      "batch_idx st' = batch_idx st1 + length (full_chunks (nat b) (batch st1 @ es))"
      "dumped (events st') =
             dumped (events st1) @
             batch_files (json a) (batch_idx st1) (full_chunks (nat b) (batch st1 @ es))"
      "files st' =
             write_all (batch_files (json a) (batch_idx st1) (full_chunks (nat b) (batch st1 @ es)))
               (files st1)"
    by blast
  have pc: "maybe_rate_sleep a (int (Suc (written st))) @
          paced a (Suc (written st)) (Suc (written st + length msgs)) =
        paced a (written st) (Suc (written st + length msgs))"
    by (rule paced_step) simp
  show ?case
  proof (cases "Suc (length (batch st)) = nat b")
    case True
    then have len: "length (batch st @ [e]) = nat b" by simp
    have fc: "full_chunks (nat b) (batch st @ e # es) = (batch st @ [e]) # full_chunks (nat b) es"
      using full_chunks_step[OF nb len, of es] by simp
    have rc: "rest_chunk (nat b) (batch st @ e # es) = rest_chunk (nat b) es"
      using rest_chunk_step[OF nb len, of es] by simp
    show ?thesis
      using s1 s2 sw True pc
      by (intro exI[of _ st'] exI[of _ "e # es"]) (simp add: fc rc)
  next
    case False
    show ?thesis
      using s1 s2 sw False pc
      by (intro exI[of _ st'] exI[of _ "e # es"]) simp
  qed
qed

section \<open>The export as a whole\<close>

lemma init_fields:
  "written (init_state a known fs0) = 0" "batch (init_state a known fs0) = []"
  "batch_idx (init_state a known fs0) = 1" "files (init_state a known fs0) = fs0"
  "events (init_state a known fs0) = []"
  "pbar_total (init_state a known fs0) = progress_total known (limit a)"
  by (simp_all add: init_state_def)

lemma main_stream_run:
  assumes "\<not> batching a"
    and "\<forall>m\<in>set msgs. (\<forall>n. \<exists>k\<ge>n. \<not> throttled (download_media m k)) \<and>
              json_ok (py_getattr (obj m) ''id'' PNone)"
  shows "\<exists>st ls. main a f known fs0 msgs = Some (Inr st) \<and> list_all2 (entry_for f) msgs ls \<and>
           files st = fs0(path_file (json a) \<mapsto> JsonLines ls) \<and>
           written st = length msgs \<and> pbar_total st = progress_total known (limit a) \<and>
           dumped (events st) = [] \<and> pauses (events st) = paced a 0 (length msgs)"
proof -
  let ?st0 = "open_w (path_file (json a)) (init_state a known fs0)"
  have "files ?st0 (path_file (json a)) = Some (JsonLines [])"
    by (simp add: open_w_def)
  from stream_loop_run[OF assms(2) this, of f]
  show ?thesis
    using assms(1) by (simp add: main_def open_w_def init_fields)
qed

lemma main_batch_run:
  assumes "batch_size a = Some b" "0 < b"
    and "\<forall>m\<in>set msgs. (\<forall>n. \<exists>k\<ge>n. \<not> throttled (download_media m k)) \<and>
            (\<forall>r es. build_record a f m = Some (r, es) \<longrightarrow> json_ok_entry (batch_entry m r))"
  shows "\<exists>es st. main a f known fs0 msgs = Some (Inr st) \<and> list_all2 (entry_for f) msgs es \<and>
           written st = length msgs \<and> pbar_total st = progress_total known (limit a) \<and>
           pauses (events st) = paced a 0 (length msgs) \<and>
           dumped (events st) = batch_files (json a) 1 (chunks (nat b) es) \<and>
           files st = write_all (batch_files (json a) 1 (chunks (nat b) es)) fs0"
proof -
  let ?st0 = "init_state a known fs0"
  have i: "length (batch ?st0) < nat b" "list_all json_ok_entry (batch ?st0)"
    using assms(2) by (simp_all add: init_fields)
  from batch_loop_run[OF assms(2,3) i]
  obtain st es where s: "batch_loop a f b ?st0 msgs = Some (Inr st)"
      "list_all2 (entry_for f) msgs es" "list_all json_ok_entry es"
      "written st = length msgs" "pbar_total st = progress_total known (limit a)"
      "pauses (events st) = paced a 0 (length msgs)"
      "batch st = rest_chunk (nat b) es"
      "batch_idx st = 1 + length (full_chunks (nat b) es)"
      "dumped (events st) = batch_files (json a) 1 (full_chunks (nat b) es)"
      "files st = write_all (batch_files (json a) 1 (full_chunks (nat b) es)) fs0"
    by (auto simp: init_fields)
  have bt: "batching a" using assms(1,2) by (simp add: batching_def)
  show ?thesis
  proof (cases "rest_chunk (nat b) es = []")
    case True
    then show ?thesis
      using s bt assms(1)
      by (intro exI[of _ es] exI[of _ st]) (simp add: main_def chunks_def)
  next
    case False
    have "set (rest_chunk (nat b) es) \<subseteq> set es"
      using concat_full_chunks[of "nat b" es] by (metis Un_upper2 set_append)
    then have ok: "list_all json_ok_entry (rest_chunk (nat b) es)"
      using s(3) by (auto simp: list_all_iff)
    show ?thesis
      using s bt assms(1) False
      by (intro exI[of _ es])
         (simp add: main_def chunks_def write_batch_ok[OF ok] batch_files_append write_all_append
            dumped_append pauses_append)
  qed
qed

section \<open>Files of a batch run\<close>

lemma batch_files_nth:
  "j < length cs \<Longrightarrow> batch_files p idx cs ! j = (batch_file p (idx + j), cs ! j)"
proof (induction cs arbitrary: idx j)
  case Nil
  then show ?case by simp
next
  case (Cons c cs)
  then show ?case by (cases j) simp_all
qed

lemma length_batch_files: "length (batch_files p idx cs) = length cs"
  by (induction cs arbitrary: idx) simp_all

lemma batch_files_map:
  "batch_files p idx cs = map (\<lambda>j. (batch_file p (idx + j), cs ! j)) [0..<length cs]"
  by (rule nth_equalityI) (simp_all add: length_batch_files batch_files_nth)

lemma write_all_other:
  "fl \<notin> fst ` set ds \<Longrightarrow> write_all ds fs fl = fs fl"
  by (induction ds arbitrary: fs) auto

lemma write_all_batch_files:
  "j < length cs \<Longrightarrow>
   write_all (batch_files p idx cs) fs (batch_file p (idx + j)) = Some (JsonArray (cs ! j))"
proof (induction cs arbitrary: idx j fs)
  case Nil
  then show ?case by simp
next
  case (Cons c cs)
  show ?case
  proof (cases j)
    case 0
    have "batch_file p idx \<notin> fst ` set (batch_files p (Suc idx) cs)"
      by (auto simp: batch_files_map batch_file_inj)
    then show ?thesis using 0 by (simp add: write_all_other)
  next
    case (Suc j')
    then show ?thesis using Cons.prems Cons.IH[of j' "Suc idx"] by simp
  qed
qed

lemma distinct_batch_files: "distinct (map fst (batch_files p idx cs))"
  by (simp add: batch_files_map distinct_map comp_def inj_on_def batch_file_inj)

lemma retry_forever:
  assumes "\<forall>k. is_flood (attempt_download f dl k)"
  shows "retry_loop f dl R s = None"
proof (rule ccontr)
  assume "retry_loop f dl R s \<noteq> None"
  then obtain y where "retry_loop f dl R s = Some y" by blast
  then have "\<not> (\<forall>k. is_flood (attempt_download f dl k))"
  proof (induction rule: retry_loop.raw_induct[rotated 1, consumes 1])
    case (1 loop f dl R s y)
    show ?case
    proof
      assume all: "\<forall>k. is_flood (attempt_download f dl k)"
      then obtain secs where fl: "attempt_download f dl (calls s) = Flood secs"
        by (metis is_flood.elims(2))
      with 1(2) all 1(1) show False by auto
    qed
  qed
  with assms show False by blast
qed

lemma stream_body_turn:
  "stream_body a f st m = Some (Inr st') \<Longrightarrow>
   written st' = Suc (written st) \<and> pbar_total st' = pbar_total st \<and>
   pauses (events st') = pauses (events st) @ maybe_rate_sleep a (int (Suc (written st)))"
  unfolding stream_body_def
  by (auto simp: Let_def pace_fields append_line_def pauses_append pauses_Fetcher
           split: option.splits sum.splits prod.splits)

lemma batch_body_turn:
  "batch_body a f b st m = Some (Inr st') \<Longrightarrow>
   written st' = Suc (written st) \<and> pbar_total st' = pbar_total st \<and>
   pauses (events st') = pauses (events st) @ maybe_rate_sleep a (int (Suc (written st)))"
  unfolding batch_body_def
  by (auto simp: Let_def pace_fields write_batch_def pauses_append pauses_Fetcher
           split: option.splits sum.splits prod.splits if_splits)

lemma stream_loop_pbar:
  "stream_loop a f st msgs = Some (Inr st') \<Longrightarrow> pbar_total st' = pbar_total st"
proof (induction msgs arbitrary: st)
  case Nil
  then show ?case by simp
next
  case (Cons m msgs)
  then obtain st1 where s: "stream_body a f st m = Some (Inr st1)"
      "stream_loop a f st1 msgs = Some (Inr st')"
    by (auto split: option.splits sum.splits)
  from Cons.IH[OF s(2)] stream_body_turn[OF s(1)] show ?case by simp
qed

lemma batch_loop_pbar:
  "batch_loop a f b st msgs = Some (Inr st') \<Longrightarrow> pbar_total st' = pbar_total st"
proof (induction msgs arbitrary: st)
  case Nil
  then show ?case by simp
next
  case (Cons m msgs)
  then obtain st1 where s: "batch_body a f b st m = Some (Inr st1)"
      "batch_loop a f b st1 msgs = Some (Inr st')"
    by (auto split: option.splits sum.splits)
  from Cons.IH[OF s(2)] batch_body_turn[OF s(1)] show ?case by simp
qed

lemma main_pbar:
  assumes "main a f known fs0 msgs = Some (Inr st)"
  shows "pbar_total st = progress_total known (limit a)"
proof (cases "batching a")
  case False
  then have "stream_loop a f (open_w (path_file (json a)) (init_state a known fs0)) msgs = Some (Inr st)"
    using assms by (simp add: main_def)
  from stream_loop_pbar[OF this] show ?thesis by (simp add: open_w_def init_fields)
next
  case True
  then obtain b where b: "batch_size a = Some b" by (auto simp: batching_def split: option.splits)
  then obtain st1 where s: "batch_loop a f b (init_state a known fs0) msgs = Some (Inr st1)"
    and fin: "st = st1 \<or> write_batch (json a) (batch st1) (batch_idx st1) st1 = Inr st"
    using assms True by (auto simp: main_def split: option.splits sum.splits if_splits)
  have "pbar_total st = pbar_total st1"
    using fin by (auto simp: write_batch_def split: if_splits)
  with batch_loop_pbar[OF s] show ?thesis by (simp add: init_fields)
qed

lemma map_snd_batch_files: "map snd (batch_files p idx cs) = cs"
  by (induction cs arbitrary: idx) simp_all

lemma batch_files_kept:
  "(fl, c) \<in> set (batch_files p idx cs) \<Longrightarrow>
   write_all (batch_files p idx cs) fs fl = Some (JsonArray c)"
proof -
  assume "(fl, c) \<in> set (batch_files p idx cs)"
  then obtain j where j: "j < length cs" "batch_files p idx cs ! j = (fl, c)"
    by (auto simp: in_set_conv_nth length_batch_files)
  then have "fl = batch_file p (idx + j)" "c = cs ! j"
    by (simp_all add: batch_files_nth)
  then show ?thesis using write_all_batch_files[OF j(1), of p idx fs] by simp
qed

section \<open>Worked instances\<close>

lemma build_record_no_media:
  "\<not> truthy (py_getattr (obj m) ''media'' PNone) \<Longrightarrow>
   build_record a f m =
     (case to_serializable f (obj m) of Inl e \<Rightarrow> Some (Inl e, []) | Inr r \<Rightarrow> Some (Inr r, []))"
  by (simp add: build_record_def split: sum.splits)

lemma plain_normalized:
  "to_serializable f (obj plain_record) =
     Inr (record_of (obj plain_record) PNone (PInt 1) PNone None)"
  by (simp add: to_serializable_def plain_record_def py_attr_def date_field_def py_getattr_def
        serialize_reactions_def)

lemma plain_built:
  "build_record a f plain_record =
     Some (Inr (record_of (obj plain_record) PNone (PInt 1) PNone None), [])"
  by (subst build_record_no_media) (simp_all add: plain_normalized, simp add: plain_record_def py_getattr_def)

lemma plain_json_ok: "json_ok_rec (record_of (obj plain_record) PNone (PInt 1) PNone None)"
  by (simp add: json_ok_rec_def record_of_def plain_record_def py_getattr_def)

lemma plain_hyps:
  "(\<forall>n. \<exists>k\<ge>n. \<not> throttled (download_media plain_record k))"
  "json_ok (py_getattr (obj plain_record) ''id'' PNone)"
  "\<forall>r es. build_record a f plain_record = Some (r, es) \<longrightarrow> json_ok_entry (batch_entry plain_record r)"
proof -
  show "\<forall>n. \<exists>k\<ge>n. \<not> throttled (download_media plain_record k)"
    by (auto simp: plain_record_def)
  show "json_ok (py_getattr (obj plain_record) ''id'' PNone)"
    by (simp add: plain_record_def py_getattr_def)
  show "\<forall>r es. build_record a f plain_record = Some (r, es) \<longrightarrow> json_ok_entry (batch_entry plain_record r)"
    by (simp add: plain_built batch_entry_def plain_json_ok)
qed

lemma odd_normalized:
  "to_serializable f (obj odd_record) =
     Inr (record_of (obj odd_record) PNone (PInt 2) PNone None)"
  by (simp add: to_serializable_def odd_record_def py_attr_def date_field_def py_getattr_def
        serialize_reactions_def)

lemma odd_built:
  "build_record a f odd_record =
     Some (Inr (record_of (obj odd_record) PNone (PInt 2) PNone None), [])"
  by (subst build_record_no_media) (simp_all add: odd_normalized, simp add: odd_record_def py_getattr_def)

lemma odd_not_json: "\<not> json_ok_rec (record_of (obj odd_record) PNone (PInt 2) PNone None)"
  by (simp add: json_ok_rec_def record_of_def odd_record_def py_getattr_def)

lemma odd_hyps:
  "(\<forall>n. \<exists>k\<ge>n. \<not> throttled (download_media odd_record k))"
  "json_ok (py_getattr (obj odd_record) ''id'' PNone)"
  by (auto simp: odd_record_def py_getattr_def)

lemma demo_args_mode:
  "\<not> batching demo_args" "0 < b \<Longrightarrow> batching (batch_args b)" "batch_size (batch_args b) = Some b"
  "json (batch_args b) = json demo_args"
  "path_file (json demo_args) = (''out'', ''messages.jsonl'')"
  "media_dir_path demo_args = Some ''media''" "media_dir_path (batch_args b) = Some ''media''"
  by (simp_all add: batching_def batch_args_def demo_args_def path_file_def media_dir_path_def)

lemma batch_aborts_on_odd:
  "main (batch_args 1) demo_str None Map.empty [plain_record, odd_record] =
     Some (Inl (TypeError ''not JSON serializable''))"
proof -
  obtain st1 where s1: "batch_body (batch_args 1) demo_str 1 (init_state (batch_args 1) None Map.empty) plain_record
      = Some (Inr st1)" "batch st1 = []"
    by (simp add: batch_body_def plain_built batch_entry_def write_batch_def plain_json_ok
          init_state_def pace_fields)
  have "batch_body (batch_args 1) demo_str 1 st1 odd_record = Some (Inl (TypeError ''not JSON serializable''))"
    using s1(2)
    by (simp add: batch_body_def odd_built batch_entry_def write_batch_def odd_not_json)
  with s1(1) show ?thesis
    by (simp add: main_def demo_args_mode)
qed

lemma stream_aborts_on_opaque_id:
  "main demo_args demo_str None Map.empty [opaque_id_record] =
     Some (Inl (TypeError ''not JSON serializable''))"
proof -
  have ts: "to_serializable demo_str (obj opaque_id_record) =
     Inr (record_of (obj opaque_id_record) PNone (PObj []) PNone None)"
    by (simp add: to_serializable_def opaque_id_record_def py_attr_def date_field_def py_getattr_def
        serialize_reactions_def)
  have br: "build_record demo_args demo_str opaque_id_record =
     Some (Inr (record_of (obj opaque_id_record) PNone (PObj []) PNone None), [])"
    by (subst build_record_no_media) (simp_all add: ts, simp add: opaque_id_record_def py_getattr_def)
  have nj: "\<not> json_ok_rec (record_of (obj opaque_id_record) PNone (PObj []) PNone None)"
    by (simp add: json_ok_rec_def record_of_def)
  have "stream_line opaque_id_record (Inr (record_of (obj opaque_id_record) PNone (PObj []) PNone None)) =
     Inl (TypeError ''not JSON serializable'')"
    using nj by (simp add: stream_line_def json_dumps_def placeholder_def opaque_id_record_def py_getattr_def)
  then show ?thesis
    by (simp add: main_def demo_args_mode stream_body_def br)
qed

lemma stuck_never_returns:
  "main demo_args demo_str None Map.empty [stuck_record] = None"
  "main (batch_args 1) demo_str None Map.empty [stuck_record] = None"
proof -
  have "\<exists>n. to_serializable demo_str demo_obj = Inr n"
    unfolding to_serializable_returns
    by (simp add: demo_obj_def date_field_def py_getattr_def serialize_reactions_def
          demo_reactions_def py_or_def)
  then obtain n where n: "to_serializable demo_str (obj stuck_record) = Inr n"
    by (auto simp: stuck_record_def)
  have "\<forall>k. is_flood (attempt_download demo_str (download_media stuck_record) k)"
    by (simp add: attempt_download_def stuck_record_def)
  from retry_forever[OF this]
  have dl: "download_with_retry a demo_str stuck_record = None" if "media_dir_path a = Some ''media''" for a
    using that by (simp add: download_with_retry_def)
  have m: "truthy (py_getattr (obj stuck_record) ''media'' PNone)"
    by (simp add: stuck_record_def demo_obj_def py_getattr_def)
  have br: "build_record a demo_str stuck_record = None" if "media_dir_path a = Some ''media''" for a
    using that n m dl[OF that] by (simp add: build_record_def)
  show "main demo_args demo_str None Map.empty [stuck_record] = None"
    by (simp add: main_def demo_args_mode stream_body_def br)
  show "main (batch_args 1) demo_str None Map.empty [stuck_record] = None"
    by (simp add: main_def demo_args_mode batch_body_def br)
qed

section \<open>The claims on the export as a whole\<close>

text \<open>
  Claim C1, as the code has it. Take any finite sequence of \<open>N\<close> records such that
  every record's media download, if attempted, is answered by something else than the
  throttling signal again and again. In streaming mode, if moreover every record's
  \<^verbatim>\<open>id\<close> is JSON-serializable, the run completes and the output file holds exactly
  \<open>N\<close> lines; in batch mode, if moreover every entry built is JSON-serializable, the
  run completes and the batch files written hold, in the order of writing, exactly
  \<open>N\<close> entries. In both, the entry at position \<open>i\<close> stands for the record at
  position \<open>i\<close>: it is its normalized record, with or without a media annotation, or
  the placeholder with its \<^verbatim>\<open>id\<close>; and the counter of processed records is \<open>N\<close>.
\<close>

theorem every_record_written_once:
  "(\<not> batching a \<and>
    (\<forall>m\<in>set msgs. (\<forall>n. \<exists>k\<ge>n. \<not> throttled (download_media m k)) \<and>
                   json_ok (py_getattr (obj m) ''id'' PNone)) \<longrightarrow>
      (\<exists>st ls. main a f known fs0 msgs = Some (Inr st) \<and>
               files st (path_file (json a)) = Some (JsonLines ls) \<and>
               dumped (events st) = [] \<and> written st = length msgs \<and>
               length ls = length msgs \<and> list_all2 (entry_for f) msgs ls)) \<and>
   (batching a \<and>
    (\<forall>m\<in>set msgs. (\<forall>n. \<exists>k\<ge>n. \<not> throttled (download_media m k)) \<and>
                   (\<forall>r es. build_record a f m = Some (r, es) \<longrightarrow>
                      json_ok_entry (batch_entry m r))) \<longrightarrow>
      (\<exists>st es. main a f known fs0 msgs = Some (Inr st) \<and>
               concat (map snd (dumped (events st))) = es \<and>
               (\<forall>(fl, c)\<in>set (dumped (events st)). files st fl = Some (JsonArray c)) \<and>
               written st = length msgs \<and>
               length es = length msgs \<and> list_all2 (entry_for f) msgs es))"
proof (intro conjI impI)
  assume h: "\<not> batching a \<and>
    (\<forall>m\<in>set msgs. (\<forall>n. \<exists>k\<ge>n. \<not> throttled (download_media m k)) \<and>
                   json_ok (py_getattr (obj m) ''id'' PNone))"
  then obtain st ls where s: "main a f known fs0 msgs = Some (Inr st)"
      "list_all2 (entry_for f) msgs ls"
      "files st = fs0(path_file (json a) \<mapsto> JsonLines ls)"
      "written st = length msgs" "dumped (events st) = []"
    using main_stream_run[of a msgs f known fs0] by blast
  have "length ls = length msgs" using s(2) by (simp add: list_all2_lengthD)
  with s show "\<exists>st ls. main a f known fs0 msgs = Some (Inr st) \<and>
               files st (path_file (json a)) = Some (JsonLines ls) \<and>
               dumped (events st) = [] \<and> written st = length msgs \<and>
               length ls = length msgs \<and> list_all2 (entry_for f) msgs ls"
    by (intro exI[of _ st] exI[of _ ls]) simp
next
  assume h: "batching a \<and>
    (\<forall>m\<in>set msgs. (\<forall>n. \<exists>k\<ge>n. \<not> throttled (download_media m k)) \<and>
                   (\<forall>r es. build_record a f m = Some (r, es) \<longrightarrow>
                      json_ok_entry (batch_entry m r)))"
  then obtain b where b: "batch_size a = Some b" "0 < b"
    by (auto simp: batching_def split: option.splits)
  from main_batch_run[OF b, of msgs f known fs0] h
  obtain es st where s: "main a f known fs0 msgs = Some (Inr st)"
      "list_all2 (entry_for f) msgs es" "written st = length msgs"
      "dumped (events st) = batch_files (json a) 1 (chunks (nat b) es)"
      "files st = write_all (batch_files (json a) 1 (chunks (nat b) es)) fs0"
    by blast
  have "length es = length msgs" using s(2) by (simp add: list_all2_lengthD)
  moreover have "concat (map snd (dumped (events st))) = es"
    by (simp add: s(4) map_snd_batch_files concat_chunks)
  moreover have "\<forall>(fl, c)\<in>set (dumped (events st)). files st fl = Some (JsonArray c)"
    unfolding s(4,5) by (auto simp: batch_files_kept)
  ultimately show "\<exists>st es. main a f known fs0 msgs = Some (Inr st) \<and>
               concat (map snd (dumped (events st))) = es \<and>
               (\<forall>(fl, c)\<in>set (dumped (events st)). files st fl = Some (JsonArray c)) \<and>
               written st = length msgs \<and>
               length es = length msgs \<and> list_all2 (entry_for f) msgs es"
    using s by (intro exI[of _ st] exI[of _ es]) simp
qed

theorem every_record_written_once_witness:
  "(\<exists>st ls. main demo_args demo_str None Map.empty [plain_record, odd_record] = Some (Inr st) \<and>
            files st (''out'', ''messages.jsonl'') = Some (JsonLines ls) \<and>
            length ls = 2 \<and> list_all2 (entry_for demo_str) [plain_record, odd_record] ls) \<and>
   (\<exists>st es. main (batch_args 2) demo_str None Map.empty [plain_record, plain_record, plain_record]
              = Some (Inr st) \<and>
            concat (map snd (dumped (events st))) = es \<and> length es = 3)"
proof -
  have h1: "\<not> batching demo_args \<and>
    (\<forall>m\<in>set [plain_record, odd_record]. (\<forall>n. \<exists>k\<ge>n. \<not> throttled (download_media m k)) \<and>
                   json_ok (py_getattr (obj m) ''id'' PNone))"
    using plain_hyps(1,2) odd_hyps demo_args_mode(1) by simp
  have h2: "batching (batch_args 2) \<and>
    (\<forall>m\<in>set [plain_record, plain_record, plain_record].
        (\<forall>n. \<exists>k\<ge>n. \<not> throttled (download_media m k)) \<and>
        (\<forall>r es. build_record (batch_args 2) demo_str m = Some (r, es) \<longrightarrow>
           json_ok_entry (batch_entry m r)))"
    using plain_hyps(1) plain_hyps(3)[of "batch_args 2" demo_str] demo_args_mode(2)[of 2] by simp
  have a: "\<exists>st ls. main demo_args demo_str None Map.empty [plain_record, odd_record] = Some (Inr st) \<and>
            files st (''out'', ''messages.jsonl'') = Some (JsonLines ls) \<and>
            length ls = 2 \<and> list_all2 (entry_for demo_str) [plain_record, odd_record] ls"
    using every_record_written_once[of demo_args "[plain_record, odd_record]" demo_str None Map.empty] h1
    by (auto simp: demo_args_mode numeral_2_eq_2)
  have b: "\<exists>st es. main (batch_args 2) demo_str None Map.empty [plain_record, plain_record, plain_record]
              = Some (Inr st) \<and>
            concat (map snd (dumped (events st))) = es \<and> length es = 3"
    using every_record_written_once[of "batch_args 2" "[plain_record, plain_record, plain_record]"
            demo_str None Map.empty] h2
    by (auto simp: numeral_3_eq_3)
  from a b show ?thesis by blast
qed

text \<open>
  Claim C1 as stated fails on three runs: in streaming mode a record whose \<^verbatim>\<open>id\<close>
  cannot be serialized makes the handler's own \<^verbatim>\<open>json.dumps\<close> raise, and the run
  aborts with no entry for it; in batch mode a record with a field that cannot be
  serialized makes \<^verbatim>\<open>json.dump\<close> raise outside the \<^verbatim>\<open>try\<close>; and a download
  that is throttled for ever keeps the run from ever producing the record's entry.
\<close>

theorem every_record_written_once_counterexample:
  "main demo_args demo_str None Map.empty [opaque_id_record] =
     Some (Inl (TypeError ''not JSON serializable'')) \<and>
   main (batch_args 1) demo_str None Map.empty [plain_record, odd_record] =
     Some (Inl (TypeError ''not JSON serializable'')) \<and>
   main demo_args demo_str None Map.empty [stuck_record] = None"
  using stream_aborts_on_opaque_id batch_aborts_on_odd stuck_never_returns(1) by simp

text \<open>
  Claim C4, as the code has it. In batch mode with batch size \<open>B > 0\<close>, for \<open>N\<close>
  records whose media downloads are not throttled for ever and whose entries are
  JSON-serializable, the run completes and writes exactly \<open>ceil (N / B)\<close> batch files:
  the batches \<open>cs\<close>, each written once as one array, in order, to the files numbered
  \<open>1, 2, ...\<close> without a gap. Every batch but possibly the last has \<open>B\<close> entries, none is
  empty, and their concatenation is the sequence of the entries of the records. At the
  end each of these files holds its batch and every other file is as it was. The file
  of number \<open>j\<close> is \<^verbatim>\<open><base>_part<seq>.json\<close> in the directory of the output path,
  \<open>seq\<close> being the decimal numeral of \<open>j\<close> filled with zeros to five characters
  (exactly five below \<open>100000\<close>, more from there on).
\<close>

theorem batch_files_written:
  assumes "batch_size a = Some b" "0 < b"
    and "\<forall>m\<in>set msgs. (\<forall>n. \<exists>k\<ge>n. \<not> throttled (download_media m k)) \<and>
            (\<forall>r es. build_record a f m = Some (r, es) \<longrightarrow> json_ok_entry (batch_entry m r))"
  shows "\<exists>st es cs. main a f known fs0 msgs = Some (Inr st) \<and>
           list_all2 (entry_for f) msgs es \<and>
           length cs = (length msgs + nat b - 1) div nat b \<and>
           (\<forall>j. Suc j < length cs \<longrightarrow> length (cs ! j) = nat b) \<and>
           (\<forall>c\<in>set cs. c \<noteq> [] \<and> length c \<le> nat b) \<and>
           concat cs = es \<and>
           dumped (events st) = map (\<lambda>j. (batch_file (json a) (Suc j), cs ! j)) [0..<length cs] \<and>
           distinct (map fst (dumped (events st))) \<and>
           (\<forall>j<length cs. files st (batch_file (json a) (Suc j)) = Some (JsonArray (cs ! j))) \<and>
           (\<forall>fl. fl \<notin> fst ` set (dumped (events st)) \<longrightarrow> files st fl = fs0 fl) \<and>
           (\<forall>j. batch_file (json a) j =
                  (parent (json a), stem (json a) @ ''_part'' @ fmt_05d j @ ''.json'') \<and>
                dec_val (fmt_05d j) = j \<and>
                length (fmt_05d j) = (if j < 100000 then 5 else length (digits j)) \<and>
                (100000 \<le> j \<longrightarrow> 5 < length (digits j)))"
proof -
  have nb: "0 < nat b" using assms(2) by simp
  from main_batch_run[OF assms, of known fs0]
  obtain es st where s: "main a f known fs0 msgs = Some (Inr st)"
      "list_all2 (entry_for f) msgs es"
      "dumped (events st) = batch_files (json a) 1 (chunks (nat b) es)"
      "files st = write_all (batch_files (json a) 1 (chunks (nat b) es)) fs0"
    by blast
  let ?cs = "chunks (nat b) es"
  have len: "length es = length msgs" using s(2) by (simp add: list_all2_lengthD)
  have c1: "length ?cs = (length msgs + nat b - 1) div nat b"
    using length_chunks[OF nb, of es] len by simp
  note c2 = chunks_sizes[OF nb, of es]
  have c3: "concat ?cs = es" by (rule concat_chunks)
  have c4: "dumped (events st) = map (\<lambda>j. (batch_file (json a) (Suc j), ?cs ! j)) [0..<length ?cs]"
    unfolding s(3) by (subst batch_files_map) simp
  have c5: "distinct (map fst (dumped (events st)))"
    unfolding s(3) by (rule distinct_batch_files)
  have c6: "\<forall>j<length ?cs. files st (batch_file (json a) (Suc j)) = Some (JsonArray (?cs ! j))"
    unfolding s(4) using write_all_batch_files[of _ ?cs "json a" 1 fs0] by simp
  have c7: "\<forall>fl. fl \<notin> fst ` set (dumped (events st)) \<longrightarrow> files st fl = fs0 fl"
    unfolding s(3,4) by (simp add: write_all_other)
  have c8: "\<forall>j. batch_file (json a) j =
                  (parent (json a), stem (json a) @ ''_part'' @ fmt_05d j @ ''.json'') \<and>
                dec_val (fmt_05d j) = j \<and>
                length (fmt_05d j) = (if j < 100000 then 5 else length (digits j)) \<and>
                (100000 \<le> j \<longrightarrow> 5 < length (digits j))"
    using fmt_05d_width by (simp add: batch_file_def dec_val_fmt)
  show ?thesis
    using s(1,2) c1 c2 c3 c4 c5 c6 c7 c8
    by (intro exI[of _ st] exI[of _ es] exI[of _ ?cs] conjI) blast+
qed

theorem batch_files_written_witness:
  "\<exists>st. main (batch_args 2) demo_str None Map.empty [plain_record, plain_record, plain_record]
           = Some (Inr st) \<and>
        map fst (dumped (events st)) =
          [(''out'', ''messages_part00001.json''), (''out'', ''messages_part00002.json'')]"
proof -
  have h: "\<forall>m\<in>set [plain_record, plain_record, plain_record].
        (\<forall>n. \<exists>k\<ge>n. \<not> throttled (download_media m k)) \<and>
        (\<forall>r es. build_record (batch_args 2) demo_str m = Some (r, es) \<longrightarrow>
           json_ok_entry (batch_entry m r))"
    using plain_hyps(1) plain_hyps(3)[of "batch_args 2" demo_str] by simp
  from batch_files_written[OF demo_args_mode(3) _ h, of None Map.empty]
  obtain st cs where s:
      "main (batch_args 2) demo_str None Map.empty [plain_record, plain_record, plain_record] = Some (Inr st)"
      "length cs = (length [plain_record, plain_record, plain_record] + nat 2 - 1) div nat 2"
      "dumped (events st) = map (\<lambda>j. (batch_file (json (batch_args 2)) (Suc j), cs ! j)) [0..<length cs]"
    by auto
  have l: "length cs = 2" using s(2) by simp
  have r4: "replicate 4 c = [c, c, c, c]" for c :: char
    by (simp add: numeral_eq_Suc)
  have f: "batch_file (json (batch_args 2)) (Suc 0) = (''out'', ''messages_part00001.json'')"
    "batch_file (json (batch_args 2)) (Suc (Suc 0)) = (''out'', ''messages_part00002.json'')"
    by (simp_all add: batch_file_def batch_args_def demo_args_def fmt_05d_def digits.simps
          digit_char_def r4)
  have "map fst (dumped (events st)) =
          [(''out'', ''messages_part00001.json''), (''out'', ''messages_part00002.json'')]"
    unfolding s(3) l using f by (simp add: upt_rec)
  with s(1) show ?thesis by (intro exI[of _ st]) simp
qed

text \<open>
  Claim C4 as stated fails on three runs: with batch size \<open>1\<close> the file of the
  \<open>100000\<close>-th record has a sequence number of six digits; a record with a field that
  cannot be serialized makes \<^verbatim>\<open>json.dump\<close> raise, so the batch holding it is not
  written; and a download throttled for ever keeps the run from writing any file.
\<close>

theorem batch_files_written_counterexample:
  "(\<exists>st. main (batch_args 1) demo_str None Map.empty (replicate 100000 plain_record) = Some (Inr st) \<and>
         length (dumped (events st)) = 100000 \<and>
         fst (last (dumped (events st))) = (''out'', ''messages_part100000.json'')) \<and>
   main (batch_args 1) demo_str None Map.empty [plain_record, odd_record] =
     Some (Inl (TypeError ''not JSON serializable'')) \<and>
   main (batch_args 1) demo_str None Map.empty [stuck_record] = None"
proof -
  let ?msgs = "replicate 100000 plain_record"
  have h: "\<forall>m\<in>set ?msgs.
        (\<forall>n. \<exists>k\<ge>n. \<not> throttled (download_media m k)) \<and>
        (\<forall>r es. build_record (batch_args 1) demo_str m = Some (r, es) \<longrightarrow>
           json_ok_entry (batch_entry m r))"
    using plain_hyps(1) plain_hyps(3)[of "batch_args 1" demo_str] by simp
  from main_batch_run[OF demo_args_mode(3) _ h, of None Map.empty]
  obtain es st where s: "main (batch_args 1) demo_str None Map.empty ?msgs = Some (Inr st)"
      "list_all2 (entry_for demo_str) ?msgs es"
      "dumped (events st) = batch_files (json (batch_args 1)) 1 (chunks (nat 1) es)"
    by auto
  have len: "length es = 100000" using s(2) by (simp add: list_all2_lengthD[symmetric])
  have lc: "length (chunks (Suc 0) es) = 100000"
    using len by (simp add: length_chunks_one)
  have ld: "length (dumped (events st)) = 100000"
    by (simp add: s(3) length_batch_files lc)
  have ne: "dumped (events st) \<noteq> []" using ld by auto
  have "last (dumped (events st)) = dumped (events st) ! 99999"
    using last_conv_nth[OF ne] by (simp add: ld)
  also have "\<dots> = (batch_file (json (batch_args 1)) (1 + 99999), chunks (nat 1) es ! 99999)"
    unfolding s(3) by (rule batch_files_nth) (simp add: lc)
  finally have "fst (last (dumped (events st))) = batch_file (json (batch_args 1)) 100000"
    by simp
  also have "\<dots> = (''out'', ''messages_part100000.json'')"
    by (simp add: batch_file_def batch_args_def demo_args_def fmt_05d_def digits.simps
          digit_char_def)
  finally have "\<exists>st. main (batch_args 1) demo_str None Map.empty ?msgs = Some (Inr st) \<and>
         length (dumped (events st)) = 100000 \<and>
         fst (last (dumped (events st))) = (''out'', ''messages_part100000.json'')"
    using s(1) ld by (intro exI[of _ st]) simp
  then show ?thesis
    using batch_aborts_on_odd stuck_never_returns(2) by simp
qed

text \<open>
  Claim C5, as the code has it. An invocation of the Pacing Controller sleeps the
  per-record delay when it is positive and then, when the every-N interval and the
  interval delay are both positive, the interval delay if the number of records
  processed so far, the current one included, is an exact multiple of N; both sleeps may
  occur. Each turn of either loop increments the counter and then makes that
  invocation, so a streaming run that completes makes, for the \<open>k\<close>-th record, the
  sleeps of the controller at count \<open>k\<close>.
\<close>

theorem pacing_after_each_record:
  "maybe_rate_sleep a w =
     (if 0 < sleep_per_msg a then [sleep_per_msg a] else []) @
     (if 0 < sleep_every a \<and> 0 < sleep_seconds a \<and> 0 < w \<and> w mod sleep_every a = 0
      then [sleep_seconds a] else []) \<and>
   (stream_body a f st m = Some (Inr st') \<or> batch_body a f b st m = Some (Inr st') \<longrightarrow>
      written st' = Suc (written st) \<and>
      pauses (events st') = pauses (events st) @ maybe_rate_sleep a (int (written st'))) \<and>
   (\<not> batching a \<and>
    (\<forall>m\<in>set msgs. (\<forall>n. \<exists>k\<ge>n. \<not> throttled (download_media m k)) \<and>
                   json_ok (py_getattr (obj m) ''id'' PNone)) \<longrightarrow>
      (\<exists>st. main a f known fs0 msgs = Some (Inr st) \<and>
            pauses (events st) =
              concat (map (\<lambda>k. maybe_rate_sleep a (int k)) [1..<Suc (length msgs)])))"
proof (intro conjI impI)
  show "maybe_rate_sleep a w =
     (if 0 < sleep_per_msg a then [sleep_per_msg a] else []) @
     (if 0 < sleep_every a \<and> 0 < sleep_seconds a \<and> 0 < w \<and> w mod sleep_every a = 0
      then [sleep_seconds a] else [])"
    by (auto simp: maybe_rate_sleep_def)
next
  assume "stream_body a f st m = Some (Inr st') \<or> batch_body a f b st m = Some (Inr st')"
  then have "written st' = Suc (written st) \<and>
      pauses (events st') = pauses (events st) @ maybe_rate_sleep a (int (Suc (written st)))"
    using stream_body_turn[of a f st m st'] batch_body_turn[of a f b st m st'] by blast
  then show "written st' = Suc (written st)"
    "pauses (events st') = pauses (events st) @ maybe_rate_sleep a (int (written st'))"
    by simp_all
next
  assume "\<not> batching a \<and>
    (\<forall>m\<in>set msgs. (\<forall>n. \<exists>k\<ge>n. \<not> throttled (download_media m k)) \<and>
                   json_ok (py_getattr (obj m) ''id'' PNone))"
  then show "\<exists>st. main a f known fs0 msgs = Some (Inr st) \<and>
            pauses (events st) =
              concat (map (\<lambda>k. maybe_rate_sleep a (int k)) [1..<Suc (length msgs)])"
    using main_stream_run[of a msgs f known fs0] by (auto simp: paced_def)
qed

theorem pacing_after_each_record_witness:
  "\<exists>st. main (pace_args (1 / 10) 5 1) demo_str None Map.empty (replicate 12 plain_record) = Some (Inr st) \<and>
        pauses (events st) =
          [1 / 10, 1 / 10, 1 / 10, 1 / 10, 1 / 10, 1,
           1 / 10, 1 / 10, 1 / 10, 1 / 10, 1 / 10, 1,
           1 / 10, 1 / 10]"
proof -
  have h: "\<not> batching (pace_args (1 / 10) 5 1) \<and>
    (\<forall>m\<in>set (replicate 12 plain_record). (\<forall>n. \<exists>k\<ge>n. \<not> throttled (download_media m k)) \<and>
                   json_ok (py_getattr (obj m) ''id'' PNone))"
    using plain_hyps(1,2) by (simp add: batching_def pace_args_def demo_args_def)
  have u: "[1..<Suc (length (replicate 12 plain_record))] = [1, 2, 3, 4, 5, 6, 7, 8, 9, 10, 11, 12]"
    by (simp add: upt_rec)
  have m: "concat (map (\<lambda>k. maybe_rate_sleep (pace_args (1 / 10) 5 1) (int k))
             [1, 2, 3, 4, 5, 6, 7, 8, 9, 10, 11, 12]) =
          [1 / 10, 1 / 10, 1 / 10, 1 / 10, 1 / 10, 1,
           1 / 10, 1 / 10, 1 / 10, 1 / 10, 1 / 10, 1,
           1 / 10, 1 / 10]"
    by (simp add: maybe_rate_sleep_def pace_args_def demo_args_def)
  show ?thesis
    using pacing_after_each_record[where a = "pace_args (1 / 10) 5 1" and f = demo_str
            and msgs = "replicate 12 plain_record" and known = None and ?fs0.0 = Map.empty] h
    unfolding u m by simp
qed

text \<open>
  Claim C5 as stated fails: with an interval of \<open>2\<close> and an interval delay of \<open>1\<close>, a
  run over two records sleeps once, after the second record, when one record had been
  processed prior to it; counting the records processed prior to the current one, as
  the claim does, predicts no sleep after either record.
\<close>

theorem pacing_after_each_record_counterexample:
  "(\<exists>st. main (pace_args 0 2 1) demo_str None Map.empty [plain_record, plain_record] = Some (Inr st) \<and>
         pauses (events st) = [1]) \<and>
   maybe_rate_sleep (pace_args 0 2 1) 2 = [1] \<and>
   pacing_as_stated (pace_args 0 2 1) 0 = [] \<and>
   pacing_as_stated (pace_args 0 2 1) 1 = []"
proof -
  have h: "\<not> batching (pace_args 0 2 1)"
    "\<forall>m\<in>set [plain_record, plain_record]. (\<forall>n. \<exists>k\<ge>n. \<not> throttled (download_media m k)) \<and>
                   json_ok (py_getattr (obj m) ''id'' PNone)"
    using plain_hyps(1,2) by (simp_all add: batching_def pace_args_def demo_args_def)
  from main_stream_run[OF h, of demo_str None Map.empty]
  obtain st where s: "main (pace_args 0 2 1) demo_str None Map.empty [plain_record, plain_record] = Some (Inr st)"
      "pauses (events st) = paced (pace_args 0 2 1) 0 (length [plain_record, plain_record])"
    by blast
  have "paced (pace_args 0 2 1) 0 (length [plain_record, plain_record]) = [1]"
    by (simp add: paced_def upt_rec maybe_rate_sleep_def pace_args_def demo_args_def)
  with s have "\<exists>st. main (pace_args 0 2 1) demo_str None Map.empty [plain_record, plain_record] = Some (Inr st) \<and>
         pauses (events st) = [1]"
    by auto
  then show ?thesis
    by (simp add: maybe_rate_sleep_def pacing_as_stated_def pace_args_def demo_args_def)
qed

text \<open>
  Claim C9. The total handed to the progress bar is the minimum of the total the source
  reports and the configured limit when both are there, and it is absent (progress
  without a denominator) exactly when neither is there; the bar keeps that total to the
  end of the run.
\<close>

theorem progress_total_displayed:
  "progress_total (Some t) (Some l) = Some (min t l) \<and>
   ((progress_total known cap = None) = (known = None \<and> cap = None)) \<and>
   pbar_total (init_state a known fs0) = progress_total known (limit a) \<and>
   (main a f known fs0 msgs = Some (Inr st) \<longrightarrow> pbar_total st = progress_total known (limit a))"
  using main_pbar[of a f known fs0 msgs st]
  by (auto simp: progress_total_def init_fields split: option.splits)

theorem progress_total_displayed_witness:
  "\<exists>st. main (demo_args\<lparr>limit := Some 20\<rparr>) demo_str (Some 50) Map.empty [plain_record] = Some (Inr st) \<and>
        pbar_total st = Some 20"
proof -
  have h: "\<not> batching (demo_args\<lparr>limit := Some 20\<rparr>)"
    "\<forall>m\<in>set [plain_record]. (\<forall>n. \<exists>k\<ge>n. \<not> throttled (download_media m k)) \<and>
                   json_ok (py_getattr (obj m) ''id'' PNone)"
    using plain_hyps(1,2) by (simp_all add: batching_def demo_args_def)
  from main_stream_run[OF h, of demo_str "Some 50" Map.empty]
  obtain st where s: "main (demo_args\<lparr>limit := Some 20\<rparr>) demo_str (Some 50) Map.empty [plain_record] = Some (Inr st)"
    by blast
  then have "pbar_total st = progress_total (Some 50) (limit (demo_args\<lparr>limit := Some 20\<rparr>))"
    using progress_total_displayed[where a = "demo_args\<lparr>limit := Some 20\<rparr>" and known = "Some 50"
            and ?fs0.0 = Map.empty and f = demo_str and msgs = "[plain_record]" and st = st]
    by blast
  then have "pbar_total st = Some 20"
    by simp (simp add: progress_total_def)
  with s show ?thesis by blast
qed

text \<open>
  Claim C10. With no record from the source, streaming mode opens the output file for
  writing, which creates it or empties it, and leaves it empty; batch mode writes
  nothing, the files are those of the start.
\<close>

theorem empty_source_asymmetry:
  "(\<not> batching a \<longrightarrow>
      (\<exists>st. main a f known fs0 [] = Some (Inr st) \<and>
            files st = fs0(path_file (json a) \<mapsto> JsonLines []) \<and>
            events st = [Opened (path_file (json a))])) \<and>
   (batching a \<longrightarrow>
      (\<exists>st. main a f known fs0 [] = Some (Inr st) \<and> files st = fs0 \<and> events st = []))"
  by (auto simp: main_def open_w_def init_fields batching_def split: option.splits)

theorem empty_source_asymmetry_witness:
  "(\<exists>st. main demo_args demo_str None [(''out'', ''messages.jsonl'') \<mapsto> JsonArray [Placeholder PNone ''old'']] []
           = Some (Inr st) \<and>
         files st = [(''out'', ''messages.jsonl'') \<mapsto> JsonLines []]) \<and>
   (\<exists>st. main (batch_args 2) demo_str None Map.empty [] = Some (Inr st) \<and> files st = Map.empty)"
  using empty_source_asymmetry[of demo_args demo_str None
          "[(''out'', ''messages.jsonl'') \<mapsto> JsonArray [Placeholder PNone ''old'']]"]
        empty_source_asymmetry[of "batch_args 2" demo_str None Map.empty]
        demo_args_mode(1) demo_args_mode(2)[of 2]
  by (auto simp: demo_args_mode)

section \<open>The outcome of the fetcher\<close>

lemma retry_outcome:
  "retry_loop f dl R s = Some y \<Longrightarrow> attempt s \<le> max 0 R \<Longrightarrow>
     calls s < calls (fst y) \<and>
     (case attempt_download f dl (calls (fst y) - 1) of
        Ok p \<Rightarrow> snd y = (Some p, None) \<and> attempt (fst y) \<le> max 0 R
      | Flood secs \<Rightarrow> False
      | Err e \<Rightarrow> snd y = (None, Some (py_repr e)) \<and> attempt (fst y) = max 0 R + 1)"
proof (induction rule: retry_loop.raw_induct[rotated 1, consumes 1])
  case (1 loop f dl R s y)
  show ?case
  proof (cases "attempt_download f dl (calls s)")
    case (Ok p)
    with 1(2) 1(3) show ?thesis by auto
  next
    case (Flood secs)
    let ?s = "s\<lparr>calls := calls s + 1, evs := evs s @ [Attempted, Slept (real_of_int (secs + 1))]\<rparr>"
    have l: "loop f dl R ?s = Some y" using 1(2) Flood by simp
    have "attempt ?s \<le> max 0 R" using 1(3) by simp
    from 1(1)[OF l this] show ?thesis by auto
  next
    case (Err e)
    show ?thesis
    proof (cases "attempt s + 1 > max 0 R")
      case True
      then have "attempt s + 1 = max 0 R + 1" using 1(3) by linarith
      with 1(2) Err True show ?thesis by auto
    next
      case False
      let ?s = "s\<lparr>attempt := attempt s + 1,
                    backoff := (if backoff s > 0 then backoff s * 2 else 0),
                    calls := calls s + 1,
                    evs := evs s @ [Attempted, Slept (backoff s)]\<rparr>"
      have l: "loop f dl R ?s = Some y" using 1(2) Err False by auto
      have le: "attempt s + 1 \<le> max 0 R" using False by linarith
      have "attempt ?s \<le> max 0 R" using le by simp
      from 1(1)[OF l this] show ?thesis by auto
    qed
  qed
qed

lemma download_outcome:
  assumes "media_dir_path a \<noteq> None" "download_with_retry a f msg = Some (st, fn, err)"
  shows "0 < calls st \<and>
     (case attempt_download f (download_media msg) (calls st - 1) of
        Ok p \<Rightarrow> fn = Some p \<and> err = None \<and> attempt st \<le> max 0 (max_retries a)
      | Flood secs \<Rightarrow> False
      | Err e \<Rightarrow> fn = None \<and> err = Some (py_repr e) \<and> attempt st = max 0 (max_retries a) + 1)"
proof -
  have r: "retry_loop f (download_media msg) (max_retries a) (retry_init a) = Some (st, fn, err)"
    using assms by (auto simp: download_with_retry_def split: option.splits)
  have "attempt (retry_init a) \<le> max 0 (max_retries a)" by (simp add: retry_init_def)
  from retry_outcome[OF r this] show ?thesis
    by (cases "attempt_download f (download_media msg) (calls st - 1)") (auto simp: retry_init_def)
qed

lemma attach_fields:
  "media_path (attach r fn err) =
     (case fn of Some p \<Rightarrow> if p \<noteq> [] then Some p else media_path r | None \<Rightarrow> media_path r)"
  "media_error (attach r fn err) =
     (case err of Some x \<Rightarrow> if x \<noteq> [] then Some x else media_error r | None \<Rightarrow> media_error r)"
  by (cases fn; cases err; simp add: attach_def Let_def)+

lemma download_forever:
  "media_dir_path a \<noteq> None \<Longrightarrow> \<forall>k. throttled (download_media msg k) \<Longrightarrow>
   download_with_retry a f msg = None"
  using retry_forever[of f "download_media msg" "max_retries a" "retry_init a"]
  by (auto simp: download_with_retry_def attempt_download_flood split: option.splits)

lemma demo_normalized: "\<exists>n. to_serializable demo_str demo_obj = Inr n"
  unfolding to_serializable_returns
  by (simp add: demo_obj_def date_field_def py_getattr_def serialize_reactions_def
        demo_reactions_def py_or_def)

lemma demo_has_media: "truthy (py_getattr demo_obj ''media'' PNone)"
  by (simp add: demo_obj_def py_getattr_def)

text \<open>
  Claim C8, as the code has it. With a media directory configured, whenever the
  fetcher returns it has made at least one download call and its outcome is decided by
  the last one: a path (the string form of what the download returned) and no failure
  reason when that call succeeded, no path and the description of the error as failure
  reason when that call failed and exhausted the retry budget; so exactly one of the
  two, never both and never neither. It does return when the download is not
  throttled for ever, and it never returns when every call is throttled. The record
  built for the sink, when a media directory is configured and the record has media,
  carries \<open>media_path\<close> exactly when the fetcher returned a non-empty path and
  \<open>media_error\<close> exactly when it returned a non-empty failure reason, hence at most one
  of them; it carries neither when no media directory is configured or the record has
  no media. That record is the entry of the batch, and the line of the stream unless a
  placeholder replaces it.
\<close>

theorem fetch_outcome_exclusive:
  "(media_dir_path a \<noteq> None \<longrightarrow>
      (\<forall>st fn err. download_with_retry a f msg = Some (st, fn, err) \<longrightarrow>
         ((fn \<noteq> None \<and> err = None) \<or> (fn = None \<and> err \<noteq> None)) \<and>
         0 < calls st \<and>
         (case attempt_download f (download_media msg) (calls st - 1) of
            Ok p \<Rightarrow> fn = Some p \<and> err = None \<and> attempt st \<le> max 0 (max_retries a)
          | Flood secs \<Rightarrow> False
          | Err e \<Rightarrow> fn = None \<and> err = Some (py_repr e) \<and>
                     attempt st = max 0 (max_retries a) + 1)) \<and>
      ((\<forall>n. \<exists>k\<ge>n. \<not> throttled (download_media msg k)) \<longrightarrow>
         (\<exists>y. download_with_retry a f msg = Some y)) \<and>
      ((\<forall>k. throttled (download_media msg k)) \<longrightarrow> download_with_retry a f msg = None)) \<and>
   (\<forall>r es. build_record a f msg = Some (Inr r, es) \<longrightarrow>
      (media_path r = None \<or> media_error r = None) \<and>
      (media_dir_path a \<noteq> None \<and> truthy (py_getattr (obj msg) ''media'' PNone) \<longrightarrow>
         (\<exists>st fn err. download_with_retry a f msg = Some (st, fn, err) \<and> es = evs st \<and>
            media_path r = (case fn of Some p \<Rightarrow> if p \<noteq> [] then Some p else None | None \<Rightarrow> None) \<and>
            media_error r = (case err of Some x \<Rightarrow> if x \<noteq> [] then Some x else None | None \<Rightarrow> None))) \<and>
      (media_dir_path a = None \<or> \<not> truthy (py_getattr (obj msg) ''media'' PNone) \<longrightarrow>
         media_path r = None \<and> media_error r = None \<and> es = []) \<and>
      batch_entry msg (Inr r) = Rec r \<and>
      (\<forall>e. stream_line msg (Inr r) = Inr e \<longrightarrow> e = Rec r \<or> (\<exists>i x. e = Placeholder i x)))"
proof -
  have shape: "((fn \<noteq> None \<and> err = None) \<or> (fn = None \<and> err \<noteq> None)) \<and>
         0 < calls st \<and>
         (case attempt_download f (download_media msg) (calls st - 1) of
            Ok p \<Rightarrow> fn = Some p \<and> err = None \<and> attempt st \<le> max 0 (max_retries a)
          | Flood secs \<Rightarrow> False
          | Err e \<Rightarrow> fn = None \<and> err = Some (py_repr e) \<and>
                     attempt st = max 0 (max_retries a) + 1)"
    if "media_dir_path a \<noteq> None" "download_with_retry a f msg = Some (st, fn, err)"
    for st fn err
    using download_outcome[OF that]
    by (cases "attempt_download f (download_media msg) (calls st - 1)") auto
  have ret: "\<exists>y. download_with_retry a f msg = Some y"
    if "\<forall>n. \<exists>k\<ge>n. \<not> throttled (download_media msg k)"
    using that by (rule download_returns)
  have nev: "download_with_retry a f msg = None"
    if "media_dir_path a \<noteq> None" "\<forall>k. throttled (download_media msg k)"
    using that by (rule download_forever)
  have built: "(media_path r = None \<or> media_error r = None) \<and>
      (media_dir_path a \<noteq> None \<and> truthy (py_getattr (obj msg) ''media'' PNone) \<longrightarrow>
         (\<exists>st fn err. download_with_retry a f msg = Some (st, fn, err) \<and> es = evs st \<and>
            media_path r = (case fn of Some p \<Rightarrow> if p \<noteq> [] then Some p else None | None \<Rightarrow> None) \<and>
            media_error r = (case err of Some x \<Rightarrow> if x \<noteq> [] then Some x else None | None \<Rightarrow> None))) \<and>
      (media_dir_path a = None \<or> \<not> truthy (py_getattr (obj msg) ''media'' PNone) \<longrightarrow>
         media_path r = None \<and> media_error r = None \<and> es = [])"
    if b: "build_record a f msg = Some (Inr r, es)" for r es
  proof (cases "to_serializable f (obj msg)")
    case (Inl e)
    with b show ?thesis by (simp add: build_record_def)
  next
    case (Inr r0)
    note f0 = fresh_record[OF Inr]
    show ?thesis
    proof (cases "media_dir_path a \<noteq> None \<and> truthy (py_getattr (obj msg) ''media'' PNone)")
      case False
      with b Inr f0 show ?thesis by (auto simp: build_record_def)
    next
      case True
      then obtain st fn err where dl: "download_with_retry a f msg = Some (st, fn, err)"
        and r: "r = attach r0 fn err" and es: "es = evs st"
        using b Inr by (auto simp: build_record_def split: option.splits)
      from shape[OF _ dl] True have one: "fn = None \<or> err = None" by blast
      have mp: "media_path r = (case fn of Some p \<Rightarrow> if p \<noteq> [] then Some p else None | None \<Rightarrow> None)"
        and me: "media_error r = (case err of Some x \<Rightarrow> if x \<noteq> [] then Some x else None | None \<Rightarrow> None)"
        unfolding r attach_fields using f0 by (simp_all split: option.splits)
      have "media_path r = None \<or> media_error r = None"
        using one mp me by auto
      with True dl es mp me show ?thesis by blast
    qed
  qed
  have sink: "batch_entry msg (Inr r) = Rec r \<and>
      (\<forall>e. stream_line msg (Inr r) = Inr e \<longrightarrow> e = Rec r \<or> (\<exists>i x. e = Placeholder i x))" for r
    by (auto simp: batch_entry_def stream_line_def json_dumps_def placeholder_def split: if_splits)
  have p1: "\<forall>st fn err. download_with_retry a f msg = Some (st, fn, err) \<longrightarrow>
         ((fn \<noteq> None \<and> err = None) \<or> (fn = None \<and> err \<noteq> None)) \<and>
         0 < calls st \<and>
         (case attempt_download f (download_media msg) (calls st - 1) of
            Ok p \<Rightarrow> fn = Some p \<and> err = None \<and> attempt st \<le> max 0 (max_retries a)
          | Flood secs \<Rightarrow> False
          | Err e \<Rightarrow> fn = None \<and> err = Some (py_repr e) \<and>
                     attempt st = max 0 (max_retries a) + 1)"
    if "media_dir_path a \<noteq> None"
    by (intro allI impI) (erule shape[OF that])
  have p2: "(media_path r = None \<or> media_error r = None) \<and>
      (media_dir_path a \<noteq> None \<and> truthy (py_getattr (obj msg) ''media'' PNone) \<longrightarrow>
         (\<exists>st fn err. download_with_retry a f msg = Some (st, fn, err) \<and> es = evs st \<and>
            media_path r = (case fn of Some p \<Rightarrow> if p \<noteq> [] then Some p else None | None \<Rightarrow> None) \<and>
            media_error r = (case err of Some x \<Rightarrow> if x \<noteq> [] then Some x else None | None \<Rightarrow> None))) \<and>
      (media_dir_path a = None \<or> \<not> truthy (py_getattr (obj msg) ''media'' PNone) \<longrightarrow>
         media_path r = None \<and> media_error r = None \<and> es = []) \<and>
      batch_entry msg (Inr r) = Rec r \<and>
      (\<forall>e. stream_line msg (Inr r) = Inr e \<longrightarrow> e = Rec r \<or> (\<exists>i x. e = Placeholder i x))"
    if b: "build_record a f msg = Some (Inr r, es)" for r es
    by (rule conjI[OF conjunct1[OF built[OF b]]
               conjI[OF conjunct1[OF conjunct2[OF built[OF b]]]
                 conjI[OF conjunct2[OF conjunct2[OF built[OF b]]] sink[of r]]]])
  show ?thesis
  proof (rule conjI)
    show "media_dir_path a \<noteq> None \<longrightarrow>
      (\<forall>st fn err. download_with_retry a f msg = Some (st, fn, err) \<longrightarrow>
         ((fn \<noteq> None \<and> err = None) \<or> (fn = None \<and> err \<noteq> None)) \<and>
         0 < calls st \<and>
         (case attempt_download f (download_media msg) (calls st - 1) of
            Ok p \<Rightarrow> fn = Some p \<and> err = None \<and> attempt st \<le> max 0 (max_retries a)
          | Flood secs \<Rightarrow> False
          | Err e \<Rightarrow> fn = None \<and> err = Some (py_repr e) \<and>
                     attempt st = max 0 (max_retries a) + 1)) \<and>
      ((\<forall>n. \<exists>k\<ge>n. \<not> throttled (download_media msg k)) \<longrightarrow>
         (\<exists>y. download_with_retry a f msg = Some y)) \<and>
      ((\<forall>k. throttled (download_media msg k)) \<longrightarrow> download_with_retry a f msg = None)"
    proof (intro impI)
      assume d: "media_dir_path a \<noteq> None"
      from p1[OF d] ret nev[OF d] show "(\<forall>st fn err. download_with_retry a f msg = Some (st, fn, err) \<longrightarrow>
         ((fn \<noteq> None \<and> err = None) \<or> (fn = None \<and> err \<noteq> None)) \<and>
         0 < calls st \<and>
         (case attempt_download f (download_media msg) (calls st - 1) of
            Ok p \<Rightarrow> fn = Some p \<and> err = None \<and> attempt st \<le> max 0 (max_retries a)
          | Flood secs \<Rightarrow> False
          | Err e \<Rightarrow> fn = None \<and> err = Some (py_repr e) \<and>
                     attempt st = max 0 (max_retries a) + 1)) \<and>
      ((\<forall>n. \<exists>k\<ge>n. \<not> throttled (download_media msg k)) \<longrightarrow>
         (\<exists>y. download_with_retry a f msg = Some y)) \<and>
      ((\<forall>k. throttled (download_media msg k)) \<longrightarrow> download_with_retry a f msg = None)"
        by (intro conjI impI) assumption+
    qed
  next
    show "\<forall>r es. build_record a f msg = Some (Inr r, es) \<longrightarrow>
      (media_path r = None \<or> media_error r = None) \<and>
      (media_dir_path a \<noteq> None \<and> truthy (py_getattr (obj msg) ''media'' PNone) \<longrightarrow>
         (\<exists>st fn err. download_with_retry a f msg = Some (st, fn, err) \<and> es = evs st \<and>
            media_path r = (case fn of Some p \<Rightarrow> if p \<noteq> [] then Some p else None | None \<Rightarrow> None) \<and>
            media_error r = (case err of Some x \<Rightarrow> if x \<noteq> [] then Some x else None | None \<Rightarrow> None))) \<and>
      (media_dir_path a = None \<or> \<not> truthy (py_getattr (obj msg) ''media'' PNone) \<longrightarrow>
         media_path r = None \<and> media_error r = None \<and> es = []) \<and>
      batch_entry msg (Inr r) = Rec r \<and>
      (\<forall>e. stream_line msg (Inr r) = Inr e \<longrightarrow> e = Rec r \<or> (\<exists>i x. e = Placeholder i x))"
      by (intro allI impI) (erule p2)
  qed
qed

theorem fetch_outcome_exclusive_witness:
  "(\<exists>r es. build_record demo_args demo_str throttled_record = Some (Inr r, es) \<and>
      media_path r = Some ''media/1.jpg'' \<and> media_error r = None) \<and>
   (\<exists>r es. build_record demo_args demo_str failing_record = Some (Inr r, es) \<and>
      media_path r = None \<and> media_error r = Some ''ConnectionError()'') \<and>
   (\<exists>st p. download_with_retry demo_args demo_str throttled_record = Some (st, Some p, None)) \<and>
   download_with_retry demo_args demo_str stuck_record = None \<and>
   (\<exists>r. build_record demo_args demo_str plain_record = Some (Inr r, []) \<and>
      media_path r = None \<and> media_error r = None)"
proof -
  have d: "media_dir_path demo_args \<noteq> None" by (simp add: media_dir_path_def demo_args_def)
  have n3: "[0..<3] = [0, 1, Suc 1]" by (simp add: upt_rec)
  have t1: "\<forall>n. \<exists>k\<ge>n. \<not> throttled (download_media throttled_record k)"
  proof
    fix n
    have "n + 3 \<ge> n \<and> \<not> throttled (download_media throttled_record (n + 3))"
      by (simp add: throttled_record_def)
    then show "\<exists>k\<ge>n. \<not> throttled (download_media throttled_record k)" by blast
  qed
  obtain r1 es1 where b1: "build_record demo_args demo_str throttled_record = Some (r1, es1)"
    using build_record_returns[OF t1] by blast
  obtain n1 where "to_serializable demo_str (obj throttled_record) = Inr n1"
    using demo_normalized by (auto simp: throttled_record_def)
  moreover have m1: "truthy (py_getattr (obj throttled_record) ''media'' PNone)"
    using demo_has_media by (simp add: throttled_record_def)
  ultimately obtain r1' where r1: "r1 = Inr r1'"
    using b1 d by (auto simp: build_record_def split: if_splits option.splits prod.splits)
  from fetch_outcome_exclusive[of demo_args demo_str throttled_record] d m1 b1 r1
  obtain st fn err where o1:
      "download_with_retry demo_args demo_str throttled_record = Some (st, fn, err)"
      "media_path r1' = (case fn of Some p \<Rightarrow> if p \<noteq> [] then Some p else None | None \<Rightarrow> None)"
      "media_error r1' = (case err of Some x \<Rightarrow> if x \<noteq> [] then Some x else None | None \<Rightarrow> None)"
    by blast
  have "retry_loop demo_str (download_media throttled_record) (max_retries demo_args) (retry_init demo_args)
      = Some ((retry_init demo_args)\<lparr>calls := calls (retry_init demo_args) + 3 + 1,
             evs := evs (retry_init demo_args) @
               concat (map (\<lambda>k. [Attempted, Slept (real_of_int ((\<lambda>k. 2) k + 1))]) [0..<3]) @ [Attempted]\<rparr>,
           Some ''media/1.jpg'', None)"
    by (rule retry_floods) (simp_all add: attempt_download_def throttled_record_def retry_init_def)
  then have "fn = Some ''media/1.jpg''" "err = None"
    using o1(1) d by (auto simp: download_with_retry_def split: option.splits)
  then have w1: "media_path r1' = Some ''media/1.jpg'' \<and> media_error r1' = None"
    using o1(2,3) by simp
  have t2: "\<forall>n. \<exists>k\<ge>n. \<not> throttled (download_media failing_record k)"
    by (auto simp: failing_record_def)
  obtain r2 es2 where b2: "build_record demo_args demo_str failing_record = Some (r2, es2)"
    using build_record_returns[OF t2] by blast
  obtain n2 where "to_serializable demo_str (obj failing_record) = Inr n2"
    using demo_normalized by (auto simp: failing_record_def)
  moreover have m2: "truthy (py_getattr (obj failing_record) ''media'' PNone)"
    using demo_has_media by (simp add: failing_record_def)
  ultimately obtain r2' where r2: "r2 = Inr r2'"
    using b2 d by (auto simp: build_record_def split: if_splits option.splits prod.splits)
  from fetch_outcome_exclusive[of demo_args demo_str failing_record] d m2 b2 r2
  obtain st2 fn2 err2 where o2:
      "download_with_retry demo_args demo_str failing_record = Some (st2, fn2, err2)"
      "media_path r2' = (case fn2 of Some p \<Rightarrow> if p \<noteq> [] then Some p else None | None \<Rightarrow> None)"
      "media_error r2' = (case err2 of Some x \<Rightarrow> if x \<noteq> [] then Some x else None | None \<Rightarrow> None)"
    by blast
  have e: "\<forall>k. attempt_download demo_str (download_media failing_record) k
             = Err ((\<lambda>k. Raised ''ConnectionError()'') k)"
    by (simp add: attempt_download_def failing_record_def)
  have "0 \<le> backoff (retry_init demo_args)"
    "int (nat (max 0 (max_retries demo_args))) = max 0 (max_retries demo_args) - attempt (retry_init demo_args)"
    by (simp_all add: retry_init_def)
  from retry_all_errors[OF e this]
  have "fn2 = None" "err2 = Some ''ConnectionError()''"
    using o2(1) d by (auto simp: download_with_retry_def split: option.splits)
  then have w2: "media_path r2' = None \<and> media_error r2' = Some ''ConnectionError()''"
    using o2(2,3) by simp
  have w3: "\<exists>st p. download_with_retry demo_args demo_str throttled_record = Some (st, Some p, None)"
  proof -
    obtain st fn err where y: "download_with_retry demo_args demo_str throttled_record = Some (st, fn, err)"
      using fetch_outcome_exclusive[of demo_args demo_str throttled_record] d t1
      by (metis prod_cases3)
    have "attempt_download demo_str (download_media throttled_record) (calls st - 1) \<noteq>
          Err x" for x
      by (simp add: attempt_download_def throttled_record_def)
    then have "fn \<noteq> None \<and> err = None"
      using fetch_outcome_exclusive[of demo_args demo_str throttled_record] d y
      by (cases "attempt_download demo_str (download_media throttled_record) (calls st - 1)") auto
    with y show ?thesis by auto
  qed
  have w4: "download_with_retry demo_args demo_str stuck_record = None"
    using fetch_outcome_exclusive[of demo_args demo_str stuck_record] d
    by (simp add: stuck_record_def)
  have w5: "\<exists>r. build_record demo_args demo_str plain_record = Some (Inr r, []) \<and>
      media_path r = None \<and> media_error r = None"
  proof -
    have nm: "\<not> truthy (py_getattr (obj plain_record) ''media'' PNone)"
      by (simp add: plain_record_def py_getattr_def)
    obtain n3 where "to_serializable demo_str (obj plain_record) = Inr n3"
      using to_serializable_returns[of demo_str "obj plain_record"]
      by (auto simp: plain_record_def date_field_def py_getattr_def serialize_reactions_def)
    then have b3: "build_record demo_args demo_str plain_record = Some (Inr n3, [])"
      using nm by (simp add: build_record_def)
    from fetch_outcome_exclusive[of demo_args demo_str plain_record] b3 nm
    have "media_path n3 = None \<and> media_error n3 = None" by blast
    with b3 show ?thesis by blast
  qed
  show ?thesis
    using b1 r1 w1 b2 r2 w2 w3 w4 w5 by blast
qed

text \<open>
  Claim C8 as stated fails: for a record with media and a media directory configured, a
  download that is throttled on every call gives the fetcher no outcome at all, neither
  a path nor a failure reason; and a download that returns the empty string succeeds
  with an empty path, which the orchestrator does not attach, so the record carries
  neither key.
\<close>

theorem fetch_outcome_exclusive_counterexample:
  "media_dir_path demo_args = Some ''media'' \<and>
   truthy (py_getattr (obj stuck_record) ''media'' PNone) \<and>
   download_with_retry demo_args demo_str stuck_record = None \<and>
   truthy (py_getattr (obj empty_path_record) ''media'' PNone) \<and>
   (\<exists>st. download_with_retry demo_args demo_str empty_path_record = Some (st, Some [], None)) \<and>
   (\<exists>r es. build_record demo_args demo_str empty_path_record = Some (Inr r, es) \<and>
      media r \<and> media_path r = None \<and> media_error r = None)"
proof -
  have d: "media_dir_path demo_args = Some ''media''"
    by (simp add: media_dir_path_def demo_args_def)
  have m: "truthy (py_getattr (obj stuck_record) ''media'' PNone)"
    "truthy (py_getattr (obj empty_path_record) ''media'' PNone)"
    using demo_has_media by (simp_all add: stuck_record_def empty_path_record_def)
  have s: "download_with_retry demo_args demo_str stuck_record = None"
    by (rule download_forever) (simp_all add: d stuck_record_def)
  have l: "retry_loop demo_str (download_media empty_path_record) (max_retries demo_args)
             (retry_init demo_args)
      = Some ((retry_init demo_args)\<lparr>calls := calls (retry_init demo_args) + 1,
                evs := evs (retry_init demo_args) @ [Attempted]\<rparr>, Some [], None)"
    by (subst retry_loop.simps) (simp add: attempt_download_def empty_path_record_def)
  then have e: "download_with_retry demo_args demo_str empty_path_record =
      Some ((retry_init demo_args)\<lparr>calls := calls (retry_init demo_args) + 1,
                evs := evs (retry_init demo_args) @ [Attempted]\<rparr>, Some [], None)"
    using d by (simp add: download_with_retry_def)
  obtain n where n: "to_serializable demo_str (obj empty_path_record) = Inr n"
    using demo_normalized by (auto simp: empty_path_record_def)
  have f0: "media_path n = None \<and> media_error n = None" by (rule fresh_record[OF n])
  have mn: "media n"
    using n m(2) unfolding to_serializable_Inr by (auto simp: record_of_def)
  have b: "build_record demo_args demo_str empty_path_record =
      Some (Inr (attach n (Some []) None), [Attempted])"
    using n m(2) d e by (simp add: build_record_def retry_init_def)
  have a: "attach n (Some []) None = n" by (simp add: attach_def)
  show ?thesis
    using d m s e b a f0 mn by auto
qed

end
